theory Spec2Isabelle
  imports Main
begin

section \<open>Numbers inside template strings\<close>

text \<open>
  The event log and the artifact names are built with JavaScript template strings, which
  render an integer in decimal, with a leading minus sign when it is negative.
\<close>

definition digit_char :: "nat \<Rightarrow> char" where
  "digit_char d = ''0123456789'' ! d"

fun show_nat :: "nat \<Rightarrow> string" where
  "show_nat n =
     (if n < 10 then [digit_char n] else show_nat (n div 10) @ [digit_char (n mod 10)])"

declare show_nat.simps [simp del]

definition show_int :: "int \<Rightarrow> string" where
  "show_int i = (if i < 0 then CHR ''-'' # show_nat (nat (- i)) else show_nat (nat i))"

section \<open>Configuration (config.json)\<close>

record channel =
  chan_name :: string
  chan_link :: string

record sniffer_config =
  cfg_bin :: string
  cfg_net :: string
  cfg_max :: string

record config =
  cfg_sniffer :: sniffer_config
  cfg_fastAwait :: int
  cfg_longAwait :: int
  cfg_homepage :: string
  cfg_channels :: "channel list"
  cfg_repetitions :: int

section \<open>The world outside the script\<close>

text \<open>
  Everything the script asks of its surroundings is a \<open>call\<close>. The calls made so far
  are kept, in order, in the \<open>trace\<close> of the state, so that statements about the
  order of actions can be made.
\<close>

type_synonym path = string

datatype node = File string | Dir

datatype error = Error string

datatype call =
    AppendFile path string
  | Unlink path
  | Mkdir path
  | Spawn string "string list"
  | Kill "nat option" string
  | PuppeteerLaunch
  | BrowserPages
  | BrowserClose
  | HarStart path
  | HarStop path
  | Goto string
  | Timeout int
  | ConsoleLog string
  | ConsoleError string
  | ProcessExit nat

datatype spawn_result = Spawned nat | SpawnFailed string

text \<open>
  The surroundings are a parameter \<open>env\<close>. Every reading of the clock and every
  external call consumes one tick; \<open>clock\<close>, \<open>dateString\<close> and \<open>dirStamp\<close> give
  what \<open>Date.now()\<close>, \<open>new Date().toDateString()\<close> and the date and time part of the
  output directory name are at a tick; \<open>fault\<close> says whether the call made at a tick
  raises, and with which message; \<open>spawned\<close> says whether the capture binary could be
  started; \<open>pages\<close> is the number of pages the launched browser reports;
  \<open>pcap_data\<close> is what a started capture writes to its output file (\<open>None\<close> when it
  writes no file) and \<open>har_data\<close> what the traffic logger writes when it is stopped.
\<close>

record env =
  dirname :: path
  clock :: "nat \<Rightarrow> int"
  dateString :: "nat \<Rightarrow> string"
  dirStamp :: "nat \<Rightarrow> string"
  fault :: "nat \<Rightarrow> call \<Rightarrow> string option"
  spawned :: "nat \<Rightarrow> spawn_result"
  pages :: "nat \<Rightarrow> nat"
  pcap_data :: "string option"
  har_data :: string

text \<open>The child process object of Node: its pid, whether the operating system process
  is still attached to it, its \<open>killed\<close> flag and the number of its exit listeners.\<close>

record child_process =
  pid :: "nat option"
  attached :: bool
  killed :: bool
  exit_listeners :: nat

record Sniffer =
  outputPath :: path
  snifferProcess :: "child_process option"

record BrowserManager =
  browser :: bool
  page :: bool

text \<open>
  The state: the file system, the tick, the trace, the notifications queued for the next
  turn of the event loop, and the two variables of \<open>Experiment.run\<close> that its failure
  handler reads.
\<close>

record state =
  fs :: "path \<Rightarrow> node option"
  ticks :: nat
  trace :: "call list"
  pending :: "string list"
  sniffer :: "Sniffer option"
  browserManager :: "BrowserManager option"

type_synonym 'a io = "state \<Rightarrow> (error + 'a) \<times> state"

definition return_io :: "'a \<Rightarrow> 'a io" where
  "return_io x st = (Inr x, st)"

definition bind :: "'a io \<Rightarrow> ('a \<Rightarrow> 'b io) \<Rightarrow> 'b io" where
  "bind m f st = (case m st of (Inl e, st') \<Rightarrow> (Inl e, st') | (Inr x, st') \<Rightarrow> f x st')"

definition tick :: "state \<Rightarrow> state" where
  "tick st = st\<lparr>ticks := Suc (ticks st)\<rparr>"

definition emit :: "call \<Rightarrow> state \<Rightarrow> state" where
  "emit c st = st\<lparr>trace := trace st @ [c]\<rparr>"

text \<open>An external call that may raise: it is recorded, and the surroundings decide.\<close>

definition extcall :: "env \<Rightarrow> call \<Rightarrow> unit io" where
  "extcall ev c st =
     (case fault ev (ticks st) c of
        Some m \<Rightarrow> (Inl (Error m), tick (emit c st))
      | None \<Rightarrow> (Inr (), tick (emit c st)))"

text \<open>At an \<open>await\<close> the event loop turns: queued notifications are printed.\<close>

definition flush :: "state \<Rightarrow> state" where
  "flush st = st\<lparr>trace := trace st @ map ConsoleError (pending st), pending := []\<rparr>"

definition await_call :: "env \<Rightarrow> call \<Rightarrow> unit io" where
  "await_call ev c st = extcall ev c (flush st)"

section \<open>Utils\<close>

definition currentTime :: "env \<Rightarrow> state \<Rightarrow> string \<times> state" where
  "currentTime ev st = (dateString ev (ticks st), tick st)"

definition currentUnix :: "env \<Rightarrow> int io" where
  "currentUnix ev st = (Inr (clock ev (ticks st)), tick st)"

definition awaiting :: "int \<Rightarrow> unit io" where
  "awaiting ms st = (Inr (), emit (Timeout ms) (flush st))"

text \<open>\<open>path.join\<close> of a directory and a file name without separators.\<close>

definition path_join :: "path \<Rightarrow> string \<Rightarrow> path" where
  "path_join d f = d @ ''/'' @ f"

definition existsSync :: "path \<Rightarrow> state \<Rightarrow> bool" where
  "existsSync p st = (fs st p \<noteq> None)"

definition appendFileSync :: "env \<Rightarrow> path \<Rightarrow> string \<Rightarrow> unit io" where
  "appendFileSync ev p s =
     bind (extcall ev (AppendFile p s)) (\<lambda>_ st.
       case fs st p of
         Some Dir \<Rightarrow> (Inl (Error ''EISDIR: illegal operation on a directory''), st)
       | Some (File old) \<Rightarrow> (Inr (), st\<lparr>fs := (fs st)(p \<mapsto> File (old @ s))\<rparr>)
       | None \<Rightarrow> (Inr (), st\<lparr>fs := (fs st)(p \<mapsto> File s)\<rparr>))"

definition unlinkSync :: "env \<Rightarrow> path \<Rightarrow> unit io" where
  "unlinkSync ev p =
     bind (extcall ev (Unlink p)) (\<lambda>_ st.
       case fs st p of
         Some (File old) \<Rightarrow> (Inr (), st\<lparr>fs := (fs st)(p := None)\<rparr>)
       | Some Dir \<Rightarrow> (Inl (Error ''EISDIR: illegal operation on a directory''), st)
       | None \<Rightarrow> (Inl (Error ''ENOENT: no such file or directory''), st))"

definition mkdirSync :: "env \<Rightarrow> path \<Rightarrow> unit io" where
  "mkdirSync ev p =
     bind (extcall ev (Mkdir p)) (\<lambda>_ st.
       case fs st p of
         None \<Rightarrow> (Inr (), st\<lparr>fs := (fs st)(p \<mapsto> Dir)\<rparr>)
       | Some _ \<Rightarrow> (Inl (Error ''EEXIST: file already exists''), st))"

definition makeOutputDir :: "env \<Rightarrow> path io" where
  "makeOutputDir ev st =
     (let dirPath = path_join (dirname ev) (dirStamp ev (ticks st)); st1 = tick st
      in if \<not> existsSync dirPath st1
         then bind (mkdirSync ev dirPath) (\<lambda>_. return_io dirPath) st1
         else return_io dirPath st1)"

fun cleanFiles :: "env \<Rightarrow> path list \<Rightarrow> unit io" where
  "cleanFiles ev [] = return_io ()"
| "cleanFiles ev (file # files) =
     bind (\<lambda>st. if existsSync file st then unlinkSync ev file st else return_io () st)
       (\<lambda>_. cleanFiles ev files)"

text \<open>\<open>checkCookies\<close> returns the exit status when it ends the process.\<close>

definition checkCookies :: "env \<Rightarrow> state \<Rightarrow> nat option \<times> state" where
  "checkCookies ev st =
     (let userDataDir = path_join (dirname ev) ''user_data''
      in if \<not> existsSync userDataDir st
         then (let (t, st1) = currentTime ev st;
                   st2 = emit (ConsoleLog (''['' @ t @ ''] The 'user_data' directory does not exist.'')) st1;
                   st3 = emit (ConsoleLog (''['' @ t @ ''] Please run 'node register.js' to set up the user data.'')) st2
               in (Some 1, emit (ProcessExit 1) st3))
         else (None, st))"

section \<open>Sniffer\<close>

definition Sniffer_new :: "path \<Rightarrow> Sniffer" where
  "Sniffer_new p = \<lparr>outputPath = p, snifferProcess = None\<rparr>"

text \<open>The signal names Node accepts; \<open>kill\<close> raises on any other name.\<close>

definition os_signals :: "string list" where
  "os_signals = [''SIGHUP'', ''SIGINT'', ''SIGQUIT'', ''SIGILL'', ''SIGTRAP'', ''SIGABRT'',
     ''SIGBUS'', ''SIGFPE'', ''SIGKILL'', ''SIGUSR1'', ''SIGSEGV'', ''SIGUSR2'', ''SIGPIPE'',
     ''SIGALRM'', ''SIGTERM'', ''SIGCHLD'', ''SIGCONT'', ''SIGSTOP'', ''SIGTSTP'', ''SIGTTIN'',
     ''SIGTTOU'', ''SIGURG'', ''SIGXCPU'', ''SIGXFSZ'', ''SIGVTALRM'', ''SIGPROF'', ''SIGWINCH'',
     ''SIGIO'', ''SIGSYS'']"

text \<open>
  \<open>subprocess.kill(signal)\<close>: the signal is delivered (a \<open>Kill\<close> call) only when the
  operating system process is still attached, and only then is \<open>killed\<close> set.
\<close>

definition child_kill ::
  "string \<Rightarrow> child_process \<Rightarrow> state \<Rightarrow> (error + bool) \<times> child_process \<times> state" where
  "child_kill sg cp st =
     (if sg \<notin> set os_signals then (Inl (Error (''Unknown signal: '' @ sg)), cp, st)
      else if attached cp then (Inr True, cp\<lparr>killed := True\<rparr>, emit (Kill (pid cp) sg) st)
      else (Inr False, cp, st))"

text \<open>What a started capture does to its output file.\<close>

definition capture_writes :: "env \<Rightarrow> path \<Rightarrow> state \<Rightarrow> state" where
  "capture_writes ev p st =
     (case pcap_data ev of
        None \<Rightarrow> st
      | Some d \<Rightarrow> (case fs st p of Some Dir \<Rightarrow> st | _ \<Rightarrow> st\<lparr>fs := (fs st)(p \<mapsto> File d)\<rparr>))"

text \<open>
  \<open>start\<close>: \<open>spawn\<close> raises only on a \<open>fault\<close>; a binary that cannot be started gives a
  child process without pid, and the message of its error listener is queued for the
  next turn of the event loop.
\<close>

definition Sniffer_start ::
  "env \<Rightarrow> config \<Rightarrow> Sniffer \<Rightarrow> state \<Rightarrow> (error + unit) \<times> Sniffer \<times> state" where
  "Sniffer_start ev cfg s st =
     (let c = cfg_sniffer cfg;
          cmd = [cfg_bin c, ''-i'', cfg_net c, ''-s'', cfg_max c, ''-w'', outputPath s]
      in case extcall ev (Spawn (hd cmd) (tl cmd)) st of
           (Inl e, st1) \<Rightarrow> (Inl e, s, st1)
         | (Inr _, st1) \<Rightarrow>
             (let (t, st2) = currentTime ev st1
              in case spawned ev (ticks st) of
                   Spawned n \<Rightarrow>
                     (Inr (),
                      s\<lparr>snifferProcess := Some \<lparr>pid = Some n, attached = True, killed = False,
                                                exit_listeners = 1\<rparr>\<rparr>,
                      capture_writes ev (outputPath s) st2)
                 | SpawnFailed m \<Rightarrow>
                     (Inr (),
                      s\<lparr>snifferProcess := Some \<lparr>pid = None, attached = False, killed = False,
                                                exit_listeners = 1\<rparr>\<rparr>,
                      st2\<lparr>pending := pending st2 @
                             [''['' @ t @ ''] Error starting tshark process: '' @ m]\<rparr>)))"

definition show_pid :: "nat option \<Rightarrow> string" where
  "show_pid p = (case p of None \<Rightarrow> ''undefined'' | Some n \<Rightarrow> show_nat n)"

text \<open>\<open>stop(signal = "SIGTERM")\<close>: \<open>None\<close> is the call without an argument.\<close>

definition Sniffer_stop ::
  "env \<Rightarrow> string option \<Rightarrow> Sniffer \<Rightarrow> state \<Rightarrow> (error + unit) \<times> Sniffer \<times> state" where
  "Sniffer_stop ev arg s st =
     (let sg = (case arg of None \<Rightarrow> ''SIGTERM'' | Some g \<Rightarrow> g)
      in case snifferProcess s of
           None \<Rightarrow> (Inr (), s, st)
         | Some cp \<Rightarrow>
             if killed cp then (Inr (), s, st)
             else
               (let (t, st1) = currentTime ev st;
                    st2 = emit (ConsoleLog (''['' @ t @ ''] Stopping tshark process with PID: '' @
                                             show_pid (pid cp))) st1
                in case child_kill sg cp st2 of
                     (Inl e, cp', st3) \<Rightarrow> (Inl e, s\<lparr>snifferProcess := Some cp'\<rparr>, st3)
                   | (Inr _, cp', st3) \<Rightarrow>
                       (Inr (),
                        s\<lparr>snifferProcess :=
                            Some (cp'\<lparr>exit_listeners := Suc (exit_listeners cp')\<rparr>)\<rparr>,
                        st3)))"

section \<open>BrowserManager\<close>

definition BrowserManager_new :: BrowserManager where
  "BrowserManager_new = \<lparr>browser = False, page = False\<rparr>"

definition BrowserManager_launch ::
  "env \<Rightarrow> BrowserManager \<Rightarrow> state \<Rightarrow> (error + unit) \<times> BrowserManager \<times> state" where
  "BrowserManager_launch ev b st =
     (case await_call ev PuppeteerLaunch st of
        (Inl e, st1) \<Rightarrow> (Inl e, b, st1)
      | (Inr _, st1) \<Rightarrow>
          (let b1 = b\<lparr>browser := True\<rparr>
           in case await_call ev BrowserPages st1 of
                (Inl e, st2) \<Rightarrow> (Inl e, b1, st2)
              | (Inr _, st2) \<Rightarrow>
                  (let b2 = b1\<lparr>page := (0 < pages ev (ticks st1))\<rparr>
                   in if \<not> page b2
                      then (case await_call ev BrowserClose st2 of
                              (Inl e, st3) \<Rightarrow> (Inl e, b2, st3)
                            | (Inr _, st3) \<Rightarrow>
                                (Inl (Error ''No page available in the browser''), b2, st3))
                      else (Inr (), b2, st2))))"

definition BrowserManager_close ::
  "env \<Rightarrow> BrowserManager \<Rightarrow> state \<Rightarrow> (error + unit) \<times> BrowserManager \<times> state" where
  "BrowserManager_close ev b st =
     (if browser b
      then (case await_call ev BrowserClose st of (r, st1) \<Rightarrow> (r, b, st1))
      else (Inr (), b, flush st))"

text \<open>The traffic logger is known by the path it was started with.\<close>

definition BrowserManager_startHarLogging ::
  "env \<Rightarrow> path \<Rightarrow> BrowserManager \<Rightarrow> state \<Rightarrow> (error + path) \<times> BrowserManager \<times> state" where
  "BrowserManager_startHarLogging ev p b st =
     (case await_call ev (HarStart p) st of
        (Inl e, st1) \<Rightarrow> (Inl e, b, st1)
      | (Inr _, st1) \<Rightarrow> (Inr p, b, st1))"

definition har_stop :: "env \<Rightarrow> path \<Rightarrow> unit io" where
  "har_stop ev p =
     bind (await_call ev (HarStop p)) (\<lambda>_ st.
       case fs st p of
         Some Dir \<Rightarrow> (Inl (Error ''EISDIR: illegal operation on a directory''), st)
       | _ \<Rightarrow> (Inr (), st\<lparr>fs := (fs st)(p \<mapsto> File (har_data ev))\<rparr>))"

definition page_goto :: "env \<Rightarrow> string \<Rightarrow> unit io" where
  "page_goto ev url = await_call ev (Goto url)"

section \<open>Experiment\<close>

record Experiment =
  outputDir :: path
  fastAwait :: int
  longAwait :: int
  watchAwait :: int

definition Experiment_new :: "env \<Rightarrow> config \<Rightarrow> Experiment io" where
  "Experiment_new ev cfg =
     bind (makeOutputDir ev) (\<lambda>d. return_io
       \<lparr>outputDir = d,
        fastAwait = cfg_fastAwait cfg * 1000,
        longAwait = cfg_longAwait cfg * 1000,
        watchAwait = cfg_longAwait cfg * 1000 * 30\<rparr>)"

text \<open>A method call on one of the two variables; the object is stored back.\<close>

definition on_sniffer ::
  "(Sniffer \<Rightarrow> state \<Rightarrow> (error + 'a) \<times> Sniffer \<times> state) \<Rightarrow> 'a io" where
  "on_sniffer f st =
     (case sniffer st of
        None \<Rightarrow> (Inl (Error ''TypeError: sniffer is undefined''), st)
      | Some s \<Rightarrow> (case f s st of (r, s', st') \<Rightarrow> (r, st'\<lparr>sniffer := Some s'\<rparr>)))"

definition on_browserManager ::
  "(BrowserManager \<Rightarrow> state \<Rightarrow> (error + 'a) \<times> BrowserManager \<times> state) \<Rightarrow> 'a io" where
  "on_browserManager f st =
     (case browserManager st of
        None \<Rightarrow> (Inl (Error ''TypeError: browserManager is undefined''), st)
      | Some b \<Rightarrow> (case f b st of (r, b', st') \<Rightarrow> (r, st'\<lparr>browserManager := Some b'\<rparr>)))"

definition logNetFile :: "Experiment \<Rightarrow> nat \<Rightarrow> path" where
  "logNetFile ex number =
     path_join (outputDir ex) (''log_net_complete-'' @ show_nat (number + 1) @ ''.pcap'')"

definition logBotFile :: "Experiment \<Rightarrow> nat \<Rightarrow> path" where
  "logBotFile ex number =
     path_join (outputDir ex) (''log_bot_complete-'' @ show_nat (number + 1) @ ''.csv'')"

definition logHarFile :: "Experiment \<Rightarrow> nat \<Rightarrow> path" where
  "logHarFile ex number =
     path_join (outputDir ex) (''log_har_complete-'' @ show_nat (number + 1) @ ''.har'')"

text \<open>One line of the event log: name, absolute time, offset.\<close>

definition log_line :: "string \<Rightarrow> int \<Rightarrow> int \<Rightarrow> string" where
  "log_line nm a r = nm @ '' '' @ show_int a @ '' '' @ show_int r @ ''\<newline>''"

text \<open>
  The pattern the source repeats for every event but \<open>origin\<close>: read the clock, append
  the line with the offset from the origin.
\<close>

definition log_event :: "env \<Rightarrow> path \<Rightarrow> string \<Rightarrow> int \<Rightarrow> unit io" where
  "log_event ev p nm originTime =
     bind (currentUnix ev) (\<lambda>t. appendFileSync ev p (log_line nm t (t - originTime)))"

definition visit :: "env \<Rightarrow> config \<Rightarrow> Experiment \<Rightarrow> path \<Rightarrow> int \<Rightarrow> channel \<Rightarrow> unit io" where
  "visit ev cfg ex logBot originTime ch =
     bind (page_goto ev (chan_link ch)) (\<lambda>_.
     bind (log_event ev logBot (chan_name ch @ ''-on'') originTime) (\<lambda>_.
     bind (awaiting (watchAwait ex)) (\<lambda>_.
     bind (log_event ev logBot (chan_name ch @ ''-off'') originTime) (\<lambda>_.
     bind (page_goto ev (cfg_homepage cfg)) (\<lambda>_.
     awaiting (fastAwait ex))))))"

fun visit_all ::
  "env \<Rightarrow> config \<Rightarrow> Experiment \<Rightarrow> path \<Rightarrow> int \<Rightarrow> channel list \<Rightarrow> unit io" where
  "visit_all ev cfg ex logBot originTime [] = return_io ()"
| "visit_all ev cfg ex logBot originTime (ch # chs) =
     bind (visit ev cfg ex logBot originTime ch) (\<lambda>_. visit_all ev cfg ex logBot originTime chs)"

definition set_sniffer :: "Sniffer \<Rightarrow> unit io" where
  "set_sniffer s st = (Inr (), st\<lparr>sniffer := Some s\<rparr>)"

definition set_browserManager :: "BrowserManager \<Rightarrow> unit io" where
  "set_browserManager b st = (Inr (), st\<lparr>browserManager := Some b\<rparr>)"

text \<open>The body of the \<open>try\<close> block of one repetition.\<close>

definition try_body :: "env \<Rightarrow> config \<Rightarrow> Experiment \<Rightarrow> nat \<Rightarrow> unit io" where
  "try_body ev cfg ex number =
     bind (appendFileSync ev (logBotFile ex number) ''event abs rel\<newline>'') (\<lambda>_.
     bind (currentUnix ev) (\<lambda>originTime.
     bind (appendFileSync ev (logBotFile ex number) (log_line ''origin'' originTime 0)) (\<lambda>_.
     bind (set_sniffer (Sniffer_new (logNetFile ex number))) (\<lambda>_.
     bind (on_sniffer (Sniffer_start ev cfg)) (\<lambda>_.
     bind (log_event ev (logBotFile ex number) ''sniffer-on'' originTime) (\<lambda>_.
     bind (set_browserManager BrowserManager_new) (\<lambda>_.
     bind (on_browserManager (BrowserManager_launch ev)) (\<lambda>_.
     bind (log_event ev (logBotFile ex number) ''browser-on'' originTime) (\<lambda>_.
     bind (awaiting (fastAwait ex)) (\<lambda>_.
     bind (on_browserManager (BrowserManager_startHarLogging ev (logHarFile ex number))) (\<lambda>harLogger.
     bind (page_goto ev (cfg_homepage cfg)) (\<lambda>_.
     bind (awaiting (longAwait ex)) (\<lambda>_.
     bind (visit_all ev cfg ex (logBotFile ex number) originTime (cfg_channels cfg)) (\<lambda>_.
     bind (har_stop ev harLogger) (\<lambda>_.
     bind (on_browserManager (BrowserManager_close ev)) (\<lambda>_.
     bind (log_event ev (logBotFile ex number) ''browser-off'' originTime) (\<lambda>_.
     bind (awaiting (longAwait ex * 2)) (\<lambda>_.
     bind (on_sniffer (Sniffer_stop ev None)) (\<lambda>_.
     log_event ev (logBotFile ex number) ''sniffer-off'' originTime)))))))))))))))))))"

definition message :: "error \<Rightarrow> string" where
  "message e = (case e of Error m \<Rightarrow> m)"

text \<open>The \<open>catch\<close> block of one repetition, statement by statement.\<close>

definition report_failure :: "nat \<Rightarrow> error \<Rightarrow> unit io" where
  "report_failure number e st =
     (Inr (), emit (ConsoleError (''Error during experiment '' @ show_nat (number + 1) @ '': '' @
                      message e)) st)"

definition close_if_created :: "env \<Rightarrow> unit io" where
  "close_if_created ev st =
     (case browserManager st of
        Some _ \<Rightarrow> on_browserManager (BrowserManager_close ev) st
      | None \<Rightarrow> return_io () st)"

definition stop_if_created :: "env \<Rightarrow> unit io" where
  "stop_if_created ev st =
     (case sniffer st of
        Some _ \<Rightarrow> on_sniffer (Sniffer_stop ev None) st
      | None \<Rightarrow> return_io () st)"

definition catch_handler :: "env \<Rightarrow> Experiment \<Rightarrow> nat \<Rightarrow> error \<Rightarrow> unit io" where
  "catch_handler ev ex number e =
     bind (report_failure number e) (\<lambda>_.
     bind (close_if_created ev) (\<lambda>_.
     bind (cleanFiles ev [logNetFile ex number, logBotFile ex number, logHarFile ex number]) (\<lambda>_.
     stop_if_created ev)))"

text \<open>The state in which the \<open>try\<close> block of a repetition starts.\<close>

definition begin_repetition :: "env \<Rightarrow> nat \<Rightarrow> state \<Rightarrow> state" where
  "begin_repetition ev number st =
     (let (t, st1) = currentTime ev st;
          st2 = emit (ConsoleLog (''['' @ t @ ''] Running experiment '' @ show_nat (number + 1))) st1
      in st2\<lparr>sniffer := None, browserManager := None\<rparr>)"

definition repetition :: "env \<Rightarrow> config \<Rightarrow> Experiment \<Rightarrow> nat \<Rightarrow> unit io" where
  "repetition ev cfg ex number st =
     (case try_body ev cfg ex number (begin_repetition ev number st) of
        (Inr _, st1) \<Rightarrow> (Inr (), st1)
      | (Inl e, st1) \<Rightarrow> catch_handler ev ex number e st1)"

function run_from :: "env \<Rightarrow> config \<Rightarrow> Experiment \<Rightarrow> nat \<Rightarrow> unit io" where
  "run_from ev cfg ex number st =
     (if int number < cfg_repetitions cfg
      then (case repetition ev cfg ex number st of
              (Inl e, st1) \<Rightarrow> (Inl e, st1)
            | (Inr _, st1) \<Rightarrow> run_from ev cfg ex (Suc number) st1)
      else (Inr (), st))"
  by pat_completeness auto
termination
  by (relation "measure (\<lambda>(ev, cfg, ex, number, st). nat (cfg_repetitions cfg - int number))") auto

declare run_from.simps [simp del]

definition Experiment_run :: "env \<Rightarrow> config \<Rightarrow> Experiment \<Rightarrow> unit io" where
  "Experiment_run ev cfg ex = run_from ev cfg ex 0"

section \<open>The main function\<close>

text \<open>How the process ends: with an exit status, or with an exception nobody caught.\<close>

datatype ending = Exit nat | Uncaught error

definition main :: "env \<Rightarrow> config \<Rightarrow> state \<Rightarrow> ending \<times> state" where
  "main ev cfg st =
     (case checkCookies ev st of
        (Some code, st1) \<Rightarrow> (Exit code, st1)
      | (None, st1) \<Rightarrow>
          (case bind (Experiment_new ev cfg) (Experiment_run ev cfg) st1 of
             (Inl e, st2) \<Rightarrow> (Uncaught e, st2)
           | (Inr _, st2) \<Rightarrow> (Exit 0, st2)))"

section \<open>Notions used in the statements\<close>

text \<open>The three artifact paths of a repetition.\<close>

definition artifacts :: "Experiment \<Rightarrow> nat \<Rightarrow> path set" where
  "artifacts ex number = {logNetFile ex number, logBotFile ex number, logHarFile ex number}"

text \<open>The text of a file; empty when there is no such file.\<close>

definition file_text :: "path \<Rightarrow> state \<Rightarrow> string" where
  "file_text p st = (case fs st p of Some (File s) \<Rightarrow> s | _ \<Rightarrow> [])"

text \<open>The path the current capture controller writes to, if there is one.\<close>

definition sniffer_path :: "state \<Rightarrow> path option" where
  "sniffer_path st = map_option outputPath (sniffer st)"

text \<open>
  Three properties of an action, whatever its outcome: \<open>quiet\<close> actions leave the file
  system alone and never move the tick backwards; an action \<open>keeps\<close> a path when it
  leaves that path alone, as long as the capture controller does not write there;
  \<open>tame\<close> actions never put a directory where there was none.
\<close>

definition quiet :: "'a io \<Rightarrow> bool" where
  "quiet m = (\<forall>st. fs (snd (m st)) = fs st \<and> sniffer_path (snd (m st)) = sniffer_path st \<and>
     ticks st \<le> ticks (snd (m st)))"

definition keeps :: "path \<Rightarrow> 'a io \<Rightarrow> bool" where
  "keeps q m = (\<forall>st. sniffer_path st \<noteq> Some q \<longrightarrow>
     fs (snd (m st)) q = fs st q \<and> sniffer_path (snd (m st)) \<noteq> Some q)"

definition tame :: "'a io \<Rightarrow> bool" where
  "tame m = (\<forall>st q. fs st q \<noteq> Some Dir \<longrightarrow> fs (snd (m st)) q \<noteq> Some Dir)"

text \<open>
  The calls that pace a run (waits, navigations, the end of traffic logging), as they
  stand in a trace; an action \<open>steps\<close> through a list of them when that is what it adds
  whenever it succeeds.
\<close>

definition paced :: "call \<Rightarrow> bool" where
  "paced c = (case c of Timeout _ \<Rightarrow> True | Goto _ \<Rightarrow> True | HarStop _ \<Rightarrow> True | _ \<Rightarrow> False)"

definition schedule :: "call list \<Rightarrow> call list" where
  "schedule tr = filter paced tr"

definition steps :: "'a io \<Rightarrow> call list \<Rightarrow> bool" where
  "steps m cs = (\<forall>st x st'. m st = (Inr x, st') \<longrightarrow> schedule (trace st') = schedule (trace st) @ cs)"

definition visit_steps :: "config \<Rightarrow> Experiment \<Rightarrow> channel \<Rightarrow> call list" where
  "visit_steps cfg ex ch =
     [Goto (chan_link ch), Timeout (watchAwait ex), Goto (cfg_homepage cfg), Timeout (fastAwait ex)]"

text \<open>
  Event-log entries are a name, an absolute time and an offset; \<open>render\<close> writes them
  as the lines of the log. \<open>entries\<close> are the entries with the given names whose times
  were read from the clock at the given ticks, and \<open>stamped\<close> is their text. An action
  \<open>appends\<close> the events of a list of names when, whenever it succeeds on an existing log
  file that the capture controller does not write to, the log has grown by one line for
  each name, in order, each stamped at a later tick than the one before, within the
  ticks the action took.
\<close>

definition render :: "(string \<times> int \<times> int) list \<Rightarrow> string" where
  "render es = concat (map (\<lambda>(nm, a, r). log_line nm a r) es)"

definition entries :: "env \<Rightarrow> int \<Rightarrow> string list \<Rightarrow> nat list \<Rightarrow> (string \<times> int \<times> int) list" where
  "entries ev origin nms ks = map (\<lambda>(nm, k). (nm, clock ev k, clock ev k - origin)) (zip nms ks)"

definition stamped :: "env \<Rightarrow> int \<Rightarrow> string list \<Rightarrow> nat list \<Rightarrow> string" where
  "stamped ev origin nms ks =
     concat (map (\<lambda>(nm, k). log_line nm (clock ev k) (clock ev k - origin)) (zip nms ks))"

definition appends :: "env \<Rightarrow> path \<Rightarrow> int \<Rightarrow> 'a io \<Rightarrow> string list \<Rightarrow> bool" where
  "appends ev p origin m nms =
     (\<forall>st x st' t. sniffer_path st \<noteq> Some p \<and> fs st p = Some (File t) \<and> m st = (Inr x, st') \<longrightarrow>
        sniffer_path st' \<noteq> Some p \<and> ticks st \<le> ticks st' \<and>
        (\<exists>ks. length ks = length nms \<and> sorted_wrt (<) ks \<and>
              (\<forall>k \<in> set ks. ticks st \<le> k \<and> k < ticks st') \<and>
              fs st' p = Some (File (t @ stamped ev origin nms ks))))"

definition channel_events :: "channel list \<Rightarrow> string list" where
  "channel_events chs = concat (map (\<lambda>ch. [chan_name ch @ ''-on'', chan_name ch @ ''-off'']) chs)"

text \<open>
  Surroundings without faults; the states in which the \<open>try\<close> block cannot fail in
  them (neither the event log nor the traffic log path is a directory, the variables
  used so far are set, and the traffic log, once written, is in place); an action is
  \<open>sure\<close> from one set of states to another when, started in a state of the first, it
  succeeds and ends in a state of the second.
\<close>

definition nofault :: "env \<Rightarrow> bool" where
  "nofault ev = (\<forall>k c. fault ev k c = None)"

definition ready :: "path \<Rightarrow> path \<Rightarrow> bool \<Rightarrow> bool \<Rightarrow> string option \<Rightarrow> state \<Rightarrow> bool" where
  "ready lg hr a b w st =
     (lg \<noteq> hr \<and> fs st lg \<noteq> Some Dir \<and> fs st hr \<noteq> Some Dir \<and>
      (a \<longrightarrow> sniffer st \<noteq> None) \<and> (b \<longrightarrow> browserManager st \<noteq> None) \<and>
      (\<forall>d. w = Some d \<longrightarrow> fs st hr = Some (File d)))"

definition sure :: "(state \<Rightarrow> bool) \<Rightarrow> 'a io \<Rightarrow> (state \<Rightarrow> bool) \<Rightarrow> bool" where
  "sure P m Q = (\<forall>st. P st \<longrightarrow> (\<exists>x st'. m st = (Inr x, st') \<and> Q st'))"

text \<open>The signals delivered to a process, as they stand in a trace.\<close>

definition kills :: "call list \<Rightarrow> call list" where
  "kills tr = filter (\<lambda>c. case c of Kill _ _ \<Rightarrow> True | _ \<Rightarrow> False) tr"

text \<open>
  The cleanup calls (closing the browser, deleting a file, signalling the capture
  process), as they stand in a trace; whether a browser was launched; and the capture
  process that a \<open>stop\<close> would signal, if there is one.
\<close>

definition tidy :: "call \<Rightarrow> bool" where
  "tidy c = (case c of BrowserClose \<Rightarrow> True | Unlink _ \<Rightarrow> True | Kill _ _ \<Rightarrow> True | _ \<Rightarrow> False)"

definition cleanup :: "call list \<Rightarrow> call list" where
  "cleanup tr = filter tidy tr"

definition launched :: "state \<Rightarrow> bool" where
  "launched st = (case browserManager st of Some b \<Rightarrow> browser b | None \<Rightarrow> False)"

definition capturing :: "state \<Rightarrow> child_process option" where
  "capturing st =
     (case sniffer st of
        None \<Rightarrow> None
      | Some s \<Rightarrow>
          (case snifferProcess s of
             None \<Rightarrow> None
           | Some cp \<Rightarrow> if attached cp \<and> \<not> killed cp then Some cp else None))"

section \<open>Concrete surroundings\<close>

text \<open>
  A configuration with the two channels A and B and two repetitions, one without
  channels, the experiment object built for them, and a starting state in which only the
  profile directory exists.
\<close>

definition cfg_demo :: config where
  "cfg_demo =
     \<lparr>cfg_sniffer = \<lparr>cfg_bin = ''tshark'', cfg_net = ''eth0'', cfg_max = ''96''\<rparr>,
      cfg_fastAwait = 1, cfg_longAwait = 2, cfg_homepage = ''home'',
      cfg_channels = [\<lparr>chan_name = ''A'', chan_link = ''a''\<rparr>,
                      \<lparr>chan_name = ''B'', chan_link = ''b''\<rparr>],
      cfg_repetitions = 2\<rparr>"

definition cfg_home :: config where
  "cfg_home = cfg_demo\<lparr>cfg_channels := []\<rparr>"

definition ex_demo :: Experiment where
  "ex_demo = \<lparr>outputDir = ''d/out'', fastAwait = 1000, longAwait = 2000, watchAwait = 60000\<rparr>"

definition st_demo :: state where
  "st_demo = \<lparr>fs = [''d/user_data'' \<mapsto> Dir], ticks = 0, trace = [], pending = [],
     sniffer = None, browserManager = None\<rparr>"

text \<open>Surroundings in which nothing goes wrong and the clock advances.\<close>

definition env_ok :: env where
  "env_ok =
     \<lparr>dirname = ''d'', clock = (\<lambda>k. 1000 + 10 * int k), dateString = (\<lambda>_. ''Tue''),
      dirStamp = (\<lambda>_. ''out''), fault = (\<lambda>_ _. None), spawned = (\<lambda>_. Spawned 7),
      pages = (\<lambda>_. 1), pcap_data = Some ''pcap'', har_data = ''har''\<rparr>"

text \<open>Surroundings in which every navigation times out.\<close>

definition env_nav :: env where
  "env_nav = env_ok\<lparr>fault := (\<lambda>k c. case c of Goto u \<Rightarrow> Some ''Navigation timeout'' | _ \<Rightarrow> None)\<rparr>"

text \<open>A capture controller whose process is running.\<close>

definition sniffer_demo :: Sniffer where
  "sniffer_demo = \<lparr>outputPath = ''d/out/log_net_complete-1.pcap'',
     snifferProcess = Some \<lparr>pid = Some 7, attached = True, killed = False, exit_listeners = 1\<rparr>\<rparr>"

text \<open>Surroundings in which the wall clock is set back by four seconds during a run.\<close>

definition env_back :: env where
  "env_back = env_ok\<lparr>clock := (\<lambda>k. if k < 4 then 5000 + 10 * int k else 1000 + 10 * int k)\<rparr>"

text \<open>Surroundings in which the capture binary cannot be started.\<close>

definition env_nobin :: env where
  "env_nobin = env_ok\<lparr>spawned := (\<lambda>_. SpawnFailed ''spawn tshark ENOENT'')\<rparr>"

text \<open>Surroundings in which the browser session breaks: listing its pages and closing
  it both raise.\<close>

definition env_stuck :: env where
  "env_stuck = env_ok\<lparr>fault := (\<lambda>k c. if c = BrowserPages \<or> c = BrowserClose
      then Some ''Protocol error: Target closed'' else None)\<rparr>"

text \<open>The states in which the failure handler is entered in two of these surroundings.\<close>

definition st_nav :: state where
  "st_nav = snd (try_body env_nav cfg_demo ex_demo 0 (begin_repetition env_nav 0 st_demo))"

definition st_stuck :: state where
  "st_stuck = snd (try_body env_stuck cfg_demo ex_demo 0 (begin_repetition env_stuck 0 st_demo))"

section \<open>Decimal rendering is injective\<close>

lemma digit_char_inj: "a < 10 \<Longrightarrow> b < 10 \<Longrightarrow> digit_char a = digit_char b \<Longrightarrow> a = b"
proof -
  assume a: "a < 10" and b: "b < 10" and e: "digit_char a = digit_char b"
  have A: "a \<in> {0,1,2,3,4,5,6,7,8,9}" using a by auto
  have B: "b \<in> {0,1,2,3,4,5,6,7,8,9}" using b by auto
  show ?thesis using A B e by (auto simp: digit_char_def)
qed

lemma show_nat_nonempty: "show_nat n \<noteq> []"
  by (subst show_nat.simps) simp

lemma show_nat_inj: "show_nat n = show_nat m \<Longrightarrow> n = m"
proof (induction n arbitrary: m rule: show_nat.induct)
  case (1 n)
  show ?case
  proof (cases "n < 10")
    case True
    then have n: "show_nat n = [digit_char n]" by (subst show_nat.simps) simp
    show ?thesis
    proof (cases "m < 10")
      case mlt: True
      then have "show_nat m = [digit_char m]" by (subst show_nat.simps) simp
      with n "1.prems" True mlt show ?thesis by (auto dest: digit_char_inj)
    next
      case False
      then have "show_nat m = show_nat (m div 10) @ [digit_char (m mod 10)]"
        by (subst show_nat.simps) simp
      with n "1.prems" show ?thesis using show_nat_nonempty[of "m div 10"] by auto
    qed
  next
    case False
    then have n: "show_nat n = show_nat (n div 10) @ [digit_char (n mod 10)]"
      by (subst show_nat.simps) simp
    show ?thesis
    proof (cases "m < 10")
      case True
      then have "show_nat m = [digit_char m]" by (subst show_nat.simps) simp
      with n "1.prems" show ?thesis using show_nat_nonempty[of "n div 10"] by auto
    next
      case mge: False
      then have m: "show_nat m = show_nat (m div 10) @ [digit_char (m mod 10)]"
        by (subst show_nat.simps) simp
      from n m "1.prems" have e1: "show_nat (n div 10) = show_nat (m div 10)"
        and e2: "digit_char (n mod 10) = digit_char (m mod 10)" by auto
      from "1.IH"[OF False e1] have d: "n div 10 = m div 10" .
      from e2 have r: "n mod 10 = m mod 10" by (auto dest!: digit_char_inj[rotated 2])
      from d r show ?thesis by (metis div_mult_mod_eq)
    qed
  qed
qed

section \<open>Sequencing\<close>

lemma snd_bind:
  "snd (bind m f st) = (case m st of (Inl e, st') \<Rightarrow> st' | (Inr x, st') \<Rightarrow> snd (f x st'))"
  by (simp add: bind_def split: prod.splits sum.splits)

lemma bind_InrE:
  assumes "bind m f st = (Inr y, st'')"
  obtains x st' where "m st = (Inr x, st')" and "f x st' = (Inr y, st'')"
  using assms by (auto simp: bind_def split: prod.splits sum.splits)

lemma bind_Inl_cases:
  assumes "bind m f st = (Inl e, st'')"
  shows "m st = (Inl e, st'') \<or> (\<exists>x st'. m st = (Inr x, st') \<and> f x st' = (Inl e, st''))"
  using assms by (auto simp: bind_def split: prod.splits sum.splits)

lemma bind_ok: "m st = (Inr x, st') \<Longrightarrow> bind m f st = f x st'"
  by (simp add: bind_def)

lemma bind_fail: "m st = (Inl e, st') \<Longrightarrow> bind m f st = (Inl e, st')"
  by (simp add: bind_def)

lemma quiet_bind:
  assumes "quiet m" and "\<And>x. quiet (f x)"
  shows "quiet (bind m f)"
proof -
  have "fs (snd (bind m f st)) = fs st \<and> sniffer_path (snd (bind m f st)) = sniffer_path st \<and>
        ticks st \<le> ticks (snd (bind m f st))" for st
  proof (cases "m st")
    case (Pair r st1)
    from assms(1) have 1: "fs (snd (m st)) = fs st \<and> sniffer_path (snd (m st)) = sniffer_path st \<and>
        ticks st \<le> ticks (snd (m st))" unfolding quiet_def by blast
    show ?thesis
    proof (cases r)
      case (Inl e)
      with Pair 1 show ?thesis by (simp add: bind_def)
    next
      case (Inr x)
      from assms(2)[of x] have "fs (snd (f x st1)) = fs st1 \<and>
        sniffer_path (snd (f x st1)) = sniffer_path st1 \<and> ticks st1 \<le> ticks (snd (f x st1))"
        unfolding quiet_def by blast
      with Pair Inr 1 show ?thesis by (simp add: bind_def)
    qed
  qed
  then show ?thesis by (simp add: quiet_def)
qed

lemma keeps_bind: "keeps q m \<Longrightarrow> (\<And>x. keeps q (f x)) \<Longrightarrow> keeps q (bind m f)"
  unfolding keeps_def snd_bind
  by (auto split: prod.splits sum.splits; metis snd_conv)

lemma tame_bind: "tame m \<Longrightarrow> (\<And>x. tame (f x)) \<Longrightarrow> tame (bind m f)"
  unfolding tame_def snd_bind
  by (auto split: prod.splits sum.splits; metis snd_conv)

lemma quiet_keeps: "quiet m \<Longrightarrow> keeps q m"
  by (simp add: quiet_def keeps_def)

lemma quiet_tame: "quiet m \<Longrightarrow> tame m"
  by (simp add: quiet_def tame_def)

lemma quiet_return [simp]: "quiet (return_io x)"
  by (simp add: quiet_def return_io_def)

lemma quiet_extcall [simp]: "quiet (extcall ev c)"
  by (simp add: quiet_def extcall_def tick_def emit_def sniffer_path_def split: option.splits)

lemma quiet_await_call [simp]: "quiet (await_call ev c)"
  by (simp add: quiet_def await_call_def extcall_def flush_def tick_def emit_def sniffer_path_def split: option.splits)

lemma quiet_awaiting [simp]: "quiet (awaiting ms)"
  by (simp add: quiet_def awaiting_def flush_def emit_def sniffer_path_def)

lemma quiet_currentUnix [simp]: "quiet (currentUnix ev)"
  by (simp add: quiet_def currentUnix_def tick_def sniffer_path_def)

lemma quiet_page_goto [simp]: "quiet (page_goto ev u)"
  by (simp add: page_goto_def)

lemma quiet_set_browserManager [simp]: "quiet (set_browserManager b)"
  by (simp add: quiet_def set_browserManager_def sniffer_path_def)

lemma quiet_on_browserManager:
  assumes "\<And>b st. fs (snd (snd (f b st))) = fs st \<and>
             sniffer_path (snd (snd (f b st))) = sniffer_path st \<and>
             ticks st \<le> ticks (snd (snd (f b st)))"
  shows "quiet (on_browserManager f)"
proof -
  have "fs (snd (on_browserManager f st)) = fs st \<and>
        sniffer_path (snd (on_browserManager f st)) = sniffer_path st \<and>
        ticks st \<le> ticks (snd (on_browserManager f st))" for st
  proof (cases "browserManager st")
    case None
    then show ?thesis by (simp add: on_browserManager_def)
  next
    case (Some b)
    obtain r b' st' where R: "f b st = (r, b', st')" by (cases "f b st") auto
    with assms[of b st] Some show ?thesis
      by (simp add: on_browserManager_def sniffer_path_def)
  qed
  then show ?thesis by (simp add: quiet_def)
qed

lemma await_call_fs [simp]: "fs (snd (await_call ev c st)) = fs st"
  and await_call_sp [simp]: "sniffer_path (snd (await_call ev c st)) = sniffer_path st"
  and await_call_ticks [simp]: "ticks (snd (await_call ev c st)) = Suc (ticks st)"
  by (simp_all add: await_call_def extcall_def flush_def tick_def emit_def sniffer_path_def
      split: option.splits)

lemma await_call_facts:
  assumes "await_call ev c st = (r, st')"
  shows "fs st' = fs st \<and> sniffer_path st' = sniffer_path st \<and> ticks st' = Suc (ticks st)"
  using await_call_fs[of ev c st] await_call_sp[of ev c st] await_call_ticks[of ev c st] assms
  by simp

lemma quiet_launch [simp]: "quiet (on_browserManager (BrowserManager_launch ev))"
proof (rule quiet_on_browserManager)
  fix b st
  show "fs (snd (snd (BrowserManager_launch ev b st))) = fs st \<and>
        sniffer_path (snd (snd (BrowserManager_launch ev b st))) = sniffer_path st \<and>
        ticks st \<le> ticks (snd (snd (BrowserManager_launch ev b st)))"
    unfolding BrowserManager_launch_def Let_def
    by (auto split: prod.splits sum.splits dest!: await_call_facts)
qed

lemma quiet_close [simp]: "quiet (on_browserManager (BrowserManager_close ev))"
proof (rule quiet_on_browserManager)
  fix b st
  show "fs (snd (snd (BrowserManager_close ev b st))) = fs st \<and>
        sniffer_path (snd (snd (BrowserManager_close ev b st))) = sniffer_path st \<and>
        ticks st \<le> ticks (snd (snd (BrowserManager_close ev b st)))"
    unfolding BrowserManager_close_def
    by (auto split: prod.splits sum.splits simp: flush_def sniffer_path_def
        dest!: await_call_facts)
qed

lemma quiet_startHar [simp]: "quiet (on_browserManager (BrowserManager_startHarLogging ev p))"
proof (rule quiet_on_browserManager)
  fix b st
  show "fs (snd (snd (BrowserManager_startHarLogging ev p b st))) = fs st \<and>
        sniffer_path (snd (snd (BrowserManager_startHarLogging ev p b st))) = sniffer_path st \<and>
        ticks st \<le> ticks (snd (snd (BrowserManager_startHarLogging ev p b st)))"
    unfolding BrowserManager_startHarLogging_def
    by (auto split: prod.splits sum.splits dest!: await_call_facts)
qed

lemma quiet_stop [simp]: "quiet (on_sniffer (Sniffer_stop ev arg))"
  by (auto simp: quiet_def on_sniffer_def Sniffer_stop_def child_kill_def currentTime_def
      tick_def emit_def sniffer_path_def Let_def split: option.splits prod.splits if_splits)

lemmas prim_defs = bind_def extcall_def await_call_def flush_def tick_def emit_def sniffer_path_def
  return_io_def

lemma keeps_appendFileSync: "q \<noteq> p \<Longrightarrow> keeps q (appendFileSync ev p s)"
  by (simp add: keeps_def appendFileSync_def prim_defs split: option.splits node.splits)

lemma tame_appendFileSync: "tame (appendFileSync ev p s)"
  by (simp add: tame_def appendFileSync_def prim_defs split: option.splits node.splits)

lemma keeps_unlinkSync: "q \<noteq> p \<Longrightarrow> keeps q (unlinkSync ev p)"
  by (simp add: keeps_def unlinkSync_def prim_defs split: option.splits node.splits)

lemma tame_unlinkSync: "tame (unlinkSync ev p)"
  by (simp add: tame_def unlinkSync_def prim_defs split: option.splits node.splits)

lemma keeps_har_stop: "q \<noteq> p \<Longrightarrow> keeps q (har_stop ev p)"
  by (simp add: keeps_def har_stop_def prim_defs split: option.splits node.splits)

lemma tame_har_stop: "tame (har_stop ev p)"
  by (simp add: tame_def har_stop_def prim_defs split: option.splits node.splits)

lemma keeps_set_sniffer: "outputPath s \<noteq> q \<Longrightarrow> keeps q (set_sniffer s)"
  by (simp add: keeps_def set_sniffer_def sniffer_path_def)

lemma tame_set_sniffer: "tame (set_sniffer s)"
  by (simp add: tame_def set_sniffer_def)

lemma Sniffer_start_path [simp]: "outputPath (fst (snd (Sniffer_start ev cfg s st))) = outputPath s"
  by (simp add: Sniffer_start_def extcall_def currentTime_def Let_def
      split: option.splits spawn_result.splits)

lemma Sniffer_start_fs: "q \<noteq> outputPath s \<Longrightarrow> fs (snd (snd (Sniffer_start ev cfg s st))) q = fs st q"
  by (simp add: Sniffer_start_def extcall_def currentTime_def capture_writes_def tick_def emit_def Let_def
      split: option.splits spawn_result.splits node.splits)

lemma Sniffer_start_tame:
  "fs st q \<noteq> Some Dir \<Longrightarrow> fs (snd (snd (Sniffer_start ev cfg s st))) q \<noteq> Some Dir"
  by (auto simp: Sniffer_start_def extcall_def currentTime_def capture_writes_def tick_def emit_def Let_def
      split: option.splits spawn_result.splits node.splits)

lemma keeps_Sniffer_start: "keeps q (on_sniffer (Sniffer_start ev cfg))"
proof -
  have "fs (snd (on_sniffer (Sniffer_start ev cfg) st)) q = fs st q \<and>
        sniffer_path (snd (on_sniffer (Sniffer_start ev cfg) st)) \<noteq> Some q"
    if a: "sniffer_path st \<noteq> Some q" for st
  proof (cases "sniffer st")
    case None
    with a show ?thesis by (simp add: on_sniffer_def sniffer_path_def)
  next
    case (Some s)
    with a have ne: "q \<noteq> outputPath s" by (auto simp: sniffer_path_def)
    obtain r s' st' where R: "Sniffer_start ev cfg s st = (r, s', st')" by (cases "Sniffer_start ev cfg s st") auto
    from Sniffer_start_fs[OF ne, of ev cfg st] R have "fs st' q = fs st q" by simp
    moreover from Sniffer_start_path[of ev cfg s st] R have "outputPath s' = outputPath s" by simp
    ultimately show ?thesis using Some R ne by (simp add: on_sniffer_def sniffer_path_def)
  qed
  then show ?thesis by (simp add: keeps_def)
qed

lemma tame_Sniffer_start: "tame (on_sniffer (Sniffer_start ev cfg))"
proof -
  have "fs (snd (on_sniffer (Sniffer_start ev cfg) st)) q \<noteq> Some Dir" if a: "fs st q \<noteq> Some Dir" for st q
  proof (cases "sniffer st")
    case None
    with a show ?thesis by (simp add: on_sniffer_def)
  next
    case (Some s)
    obtain r s' st' where R: "Sniffer_start ev cfg s st = (r, s', st')" by (cases "Sniffer_start ev cfg s st") auto
    from Sniffer_start_tame[OF a, of ev cfg s] R have "fs st' q \<noteq> Some Dir" by simp
    then show ?thesis using Some R by (simp add: on_sniffer_def)
  qed
  then show ?thesis by (simp add: tame_def)
qed

lemma keeps_log_event: "q \<noteq> p \<Longrightarrow> keeps q (log_event ev p nm x)"
  unfolding log_event_def
  by (intro keeps_bind keeps_appendFileSync quiet_keeps quiet_currentUnix; simp)

lemma tame_log_event: "tame (log_event ev p nm x)"
  unfolding log_event_def
  by (intro tame_bind tame_appendFileSync quiet_tame quiet_currentUnix; simp)

lemma keeps_visit: "q \<noteq> p \<Longrightarrow> keeps q (visit ev cfg ex p x ch)"
  unfolding visit_def
  by (intro keeps_bind keeps_log_event quiet_keeps; simp)

lemma tame_visit: "tame (visit ev cfg ex p x ch)"
  unfolding visit_def
  by (intro tame_bind tame_log_event quiet_tame; simp)

lemma keeps_visit_all: "q \<noteq> p \<Longrightarrow> keeps q (visit_all ev cfg ex p x chs)"
proof (induction chs)
  case Nil
  then show ?case by (simp add: quiet_keeps)
next
  case (Cons ch chs)
  then show ?case by (simp add: keeps_bind keeps_visit)
qed

lemma tame_visit_all: "tame (visit_all ev cfg ex p x chs)"
proof (induction chs)
  case Nil
  then show ?case by (simp add: quiet_tame)
next
  case (Cons ch chs)
  then show ?case by (simp add: tame_bind tame_visit)
qed

lemma startHar_value:
  "on_browserManager (BrowserManager_startHarLogging ev p) st = (Inr x, st') \<Longrightarrow> x = p"
  by (auto simp: on_browserManager_def BrowserManager_startHarLogging_def
      split: option.splits prod.splits sum.splits)

lemma keeps_bind_startHar:
  assumes "keeps q (f p)"
  shows "keeps q (bind (on_browserManager (BrowserManager_startHarLogging ev p)) f)"
proof -
  let ?m = "on_browserManager (BrowserManager_startHarLogging ev p)"
  have km: "keeps q ?m" by (simp add: quiet_keeps)
  have "fs (snd (bind ?m f st)) q = fs st q \<and> sniffer_path (snd (bind ?m f st)) \<noteq> Some q"
    if a: "sniffer_path st \<noteq> Some q" for st
  proof (cases "?m st")
    case (Pair r st1)
    from km a have "fs (snd (?m st)) q = fs st q \<and> sniffer_path (snd (?m st)) \<noteq> Some q"
      unfolding keeps_def by blast
    with Pair have 1: "fs st1 q = fs st q" "sniffer_path st1 \<noteq> Some q"
      by simp_all
    show ?thesis
    proof (cases r)
      case (Inl e)
      with Pair 1 show ?thesis by (simp add: bind_def)
    next
      case (Inr x)
      with Pair have xp: "x = p" by (auto dest: startHar_value)
      from assms 1(2) have "fs (snd (f p st1)) q = fs st1 q \<and> sniffer_path (snd (f p st1)) \<noteq> Some q"
        unfolding keeps_def by blast
      with Pair Inr 1 xp show ?thesis by (simp add: bind_def)
    qed
  qed
  then show ?thesis by (simp add: keeps_def)
qed

lemma keeps_try_body:
  assumes "q \<noteq> logNetFile ex n" "q \<noteq> logBotFile ex n" "q \<noteq> logHarFile ex n"
  shows "keeps q (try_body ev cfg ex n)"
  unfolding try_body_def using assms
  apply (intro keeps_bind_startHar keeps_bind keeps_appendFileSync keeps_log_event keeps_visit_all
      keeps_har_stop keeps_set_sniffer keeps_Sniffer_start quiet_keeps)
       apply (simp_all add: Sniffer_new_def)
  done

lemma tame_try_body: "tame (try_body ev cfg ex n)"
  unfolding try_body_def
  by (intro tame_bind tame_appendFileSync tame_log_event tame_visit_all tame_har_stop
      tame_set_sniffer tame_Sniffer_start quiet_tame; simp)

lemma keeps_cleanFiles: "q \<notin> set ps \<Longrightarrow> keeps q (cleanFiles ev ps)"
proof (induction ps)
  case Nil
  then show ?case by (simp add: quiet_keeps)
next
  case (Cons p ps)
  have "keeps q (\<lambda>st. if existsSync p st then unlinkSync ev p st else return_io () st)"
    using Cons.prems keeps_unlinkSync[of q p ev] quiet_keeps[OF quiet_return, of q "()"]
    by (simp add: keeps_def)
  with Cons show ?case by (simp add: keeps_bind)
qed

lemma tame_cleanFiles: "tame (cleanFiles ev ps)"
proof (induction ps)
  case Nil
  then show ?case by (simp add: quiet_tame)
next
  case (Cons p ps)
  have "tame (\<lambda>st. if existsSync p st then unlinkSync ev p st else return_io () st)"
    using tame_unlinkSync[of ev p] quiet_tame[OF quiet_return, of "()"]
    by (simp add: tame_def)
  with Cons show ?case by (simp add: tame_bind)
qed

lemma quiet_report_failure [simp]: "quiet (report_failure n e)"
  by (simp add: quiet_def report_failure_def emit_def sniffer_path_def)

lemma quiet_close_if_created [simp]: "quiet (close_if_created ev)"
proof -
  have "close_if_created ev st = on_browserManager (BrowserManager_close ev) st \<or>
        close_if_created ev st = return_io () st" for st
    by (simp add: close_if_created_def split: option.splits)
  with quiet_close[of ev] quiet_return[of "()"] show ?thesis
    unfolding quiet_def by metis
qed

lemma quiet_stop_if_created [simp]: "quiet (stop_if_created ev)"
proof -
  have "stop_if_created ev st = on_sniffer (Sniffer_stop ev None) st \<or>
        stop_if_created ev st = return_io () st" for st
    by (simp add: stop_if_created_def split: option.splits)
  with quiet_stop[of ev None] quiet_return[of "()"] show ?thesis
    unfolding quiet_def by metis
qed

lemma keeps_catch_handler:
  assumes "q \<noteq> logNetFile ex n" "q \<noteq> logBotFile ex n" "q \<noteq> logHarFile ex n"
  shows "keeps q (catch_handler ev ex n e)"
  unfolding catch_handler_def using assms
  by (intro keeps_bind keeps_cleanFiles quiet_keeps; simp)

lemma tame_catch_handler: "tame (catch_handler ev ex n e)"
  unfolding catch_handler_def
  by (intro tame_bind tame_cleanFiles quiet_tame; simp)

lemma begin_repetition_fs [simp]: "fs (begin_repetition ev n st) = fs st"
  by (simp add: begin_repetition_def currentTime_def emit_def tick_def)

lemma begin_repetition_sp [simp]: "sniffer_path (begin_repetition ev n st) = None"
  by (simp add: begin_repetition_def currentTime_def emit_def tick_def sniffer_path_def)

lemma repetition_frame:
  assumes "q \<noteq> logNetFile ex n" "q \<noteq> logBotFile ex n" "q \<noteq> logHarFile ex n"
  shows "fs (snd (repetition ev cfg ex n st)) q = fs st q"
proof -
  let ?b = "begin_repetition ev n st"
  have k1: "keeps q (try_body ev cfg ex n)" using assms by (rule keeps_try_body)
  have b: "sniffer_path ?b \<noteq> Some q" by simp
  from k1 b have t: "fs (snd (try_body ev cfg ex n ?b)) q = fs st q"
    and tp: "sniffer_path (snd (try_body ev cfg ex n ?b)) \<noteq> Some q"
    by (simp_all add: keeps_def)
  show ?thesis
  proof (cases "try_body ev cfg ex n ?b")
    case (Pair r st1)
    show ?thesis
    proof (cases r)
      case (Inl e)
      have "keeps q (catch_handler ev ex n e)" using assms by (rule keeps_catch_handler)
      with t tp Pair Inl show ?thesis by (simp add: repetition_def keeps_def)
    next
      case (Inr u)
      with t Pair show ?thesis by (simp add: repetition_def)
    qed
  qed
qed

lemma repetition_tame: "tame (repetition ev cfg ex n)"
proof -
  have "fs st q \<noteq> Some Dir \<Longrightarrow> fs (snd (repetition ev cfg ex n st)) q \<noteq> Some Dir" for st q
  proof -
    assume a: "fs st q \<noteq> Some Dir"
    let ?b = "begin_repetition ev n st"
    from a have "fs ?b q \<noteq> Some Dir" by simp
    with tame_try_body[of ev cfg ex n] have t: "fs (snd (try_body ev cfg ex n ?b)) q \<noteq> Some Dir"
      unfolding tame_def by blast
    show ?thesis
    proof (cases "try_body ev cfg ex n ?b")
      case (Pair r st1)
      show ?thesis
      proof (cases r)
        case (Inl e)
        with t Pair tame_catch_handler[of ev ex n e] show ?thesis
          by (simp add: repetition_def tame_def)
      next
        case (Inr u)
        with t Pair show ?thesis by (simp add: repetition_def)
      qed
    qed
  qed
  then show ?thesis by (simp add: tame_def)
qed

lemma run_from_tame:
  "fs st q \<noteq> Some Dir \<Longrightarrow> fs (snd (run_from ev cfg ex number st)) q \<noteq> Some Dir"
proof (induction ev cfg ex number st rule: run_from.induct)
  case (1 ev cfg ex number st)
  show ?case
  proof (cases "int number < cfg_repetitions cfg")
    case False
    with 1(2) show ?thesis by (simp add: run_from.simps)
  next
    case True
    from repetition_tame[of ev cfg ex number] 1(2)
    have t: "fs (snd (repetition ev cfg ex number st)) q \<noteq> Some Dir"
      unfolding tame_def by blast
    show ?thesis
    proof (cases "repetition ev cfg ex number st")
      case (Pair r st1)
      with t have t1: "fs st1 q \<noteq> Some Dir" by simp
      show ?thesis
      proof (cases r)
        case (Inl e)
        with Pair True t1 show ?thesis by (simp add: run_from.simps[of ev cfg ex number st])
      next
        case (Inr u)
        from 1(1)[OF True Pair[symmetric] Inr t1] Pair True Inr show ?thesis
          by (simp add: run_from.simps[of ev cfg ex number st])
      qed
    qed
  qed
qed

lemma run_from_frame:
  "\<forall>n. q \<notin> artifacts ex n \<Longrightarrow> fs (snd (run_from ev cfg ex number st)) q = fs st q"
proof (induction ev cfg ex number st rule: run_from.induct)
  case (1 ev cfg ex number st)
  show ?case
  proof (cases "int number < cfg_repetitions cfg")
    case False
    then show ?thesis by (simp add: run_from.simps)
  next
    case True
    have "q \<noteq> logNetFile ex number" "q \<noteq> logBotFile ex number" "q \<noteq> logHarFile ex number"
      using 1(2) by (auto simp: artifacts_def)
    then have t: "fs (snd (repetition ev cfg ex number st)) q = fs st q"
      by (rule repetition_frame)
    show ?thesis
    proof (cases "repetition ev cfg ex number st")
      case (Pair r st1)
      with t have t1: "fs st1 q = fs st q" by simp
      show ?thesis
      proof (cases r)
        case (Inl e)
        with Pair True t1 show ?thesis by (simp add: run_from.simps[of ev cfg ex number st])
      next
        case (Inr u)
        from 1(1)[OF True Pair[symmetric] Inr 1(2)] t1 Pair True Inr show ?thesis
          by (simp add: run_from.simps[of ev cfg ex number st])
      qed
    qed
  qed
qed

section \<open>Artifact paths\<close>

lemma logNetFile_inj: "logNetFile ex i = logNetFile ex j \<Longrightarrow> i = j"
  by (auto simp: logNetFile_def path_join_def dest: show_nat_inj)

lemma logBotFile_inj: "logBotFile ex i = logBotFile ex j \<Longrightarrow> i = j"
  by (auto simp: logBotFile_def path_join_def dest: show_nat_inj)

lemma logHarFile_inj: "logHarFile ex i = logHarFile ex j \<Longrightarrow> i = j"
  by (auto simp: logHarFile_def path_join_def dest: show_nat_inj)

lemma log_files_distinct [simp]:
  "logNetFile ex i \<noteq> logBotFile ex j" "logNetFile ex i \<noteq> logHarFile ex j"
  "logBotFile ex i \<noteq> logNetFile ex j" "logBotFile ex i \<noteq> logHarFile ex j"
  "logHarFile ex i \<noteq> logNetFile ex j" "logHarFile ex i \<noteq> logBotFile ex j"
  by (simp_all add: logNetFile_def logBotFile_def logHarFile_def path_join_def)

lemma artifacts_disjoint: "i \<noteq> j \<Longrightarrow> artifacts ex i \<inter> artifacts ex j = {}"
  by (auto simp: artifacts_def dest: logNetFile_inj logBotFile_inj logHarFile_inj)

lemma artifacts_in_outputDir: "q \<in> artifacts ex i \<Longrightarrow> \<exists>f. q = path_join (outputDir ex) f"
  by (auto simp: artifacts_def logNetFile_def logBotFile_def logHarFile_def)

lemma Experiment_new_makes:
  assumes "Experiment_new ev cfg st = (Inr ex, st')"
  shows "outputDir ex = path_join (dirname ev) (dirStamp ev (ticks st)) \<and>
         fs st' (outputDir ex) \<noteq> None \<and>
         (fs st (outputDir ex) = None \<longrightarrow> fs st' (outputDir ex) = Some Dir) \<and>
         (\<forall>q. q \<noteq> outputDir ex \<longrightarrow> fs st' q = fs st q)"
  using assms
  by (auto simp: Experiment_new_def makeOutputDir_def mkdirSync_def existsSync_def
      bind_def return_io_def extcall_def tick_def emit_def Let_def
      split: if_splits option.splits prod.splits sum.splits)

lemma demo_experiment: "fst (Experiment_new env_ok cfg_demo st_demo) = Inr ex_demo"
  by (simp add: Experiment_new_def makeOutputDir_def mkdirSync_def existsSync_def path_join_def
      bind_def return_io_def extcall_def tick_def emit_def Let_def
      env_ok_def cfg_demo_def st_demo_def ex_demo_def)

lemma fst_eq_made: "fst r = Inr x \<Longrightarrow> r = (Inr x, snd r)"
  by (cases r) simp

lemma profile_is_no_artifact: "''d/user_data'' \<notin> artifacts ex_demo n"
  by (simp add: artifacts_def logNetFile_def logBotFile_def logHarFile_def path_join_def ex_demo_def)

lemma demo_profile_stays:
  "fs (snd (Experiment_run env_ok cfg_demo ex_demo st_demo)) ''d/user_data'' = Some Dir"
  unfolding Experiment_run_def
  using run_from_frame[of "''d/user_data''" ex_demo env_ok cfg_demo 0 st_demo] profile_is_no_artifact
  by (simp add: st_demo_def)

text \<open>
  C10: the experiment object is built once, before the loop, and its output directory is
  the one named after the date and time of that moment; building it touches no other
  path, and the directory exists afterwards (it is created when nothing was there). The
  loop creates no directory. Every artifact path of every repetition lies in the output
  directory of the one experiment object, and carries the number of its repetition plus
  one; hence the artifact paths of two different repetitions are disjoint, and a
  repetition, whether it succeeds or fails and cleans up, leaves every artifact path of
  every other repetition as it was: it neither writes, nor appends to, nor deletes
  another repetition's files.
\<close>

theorem runs_have_disjoint_artifacts:
  "(Experiment_new ev cfg st0 = (Inr ex, st1) \<longrightarrow>
      outputDir ex = path_join (dirname ev) (dirStamp ev (ticks st0)) \<and>
      fs st1 (outputDir ex) \<noteq> None \<and>
      (fs st0 (outputDir ex) = None \<longrightarrow> fs st1 (outputDir ex) = Some Dir) \<and>
      (\<forall>q. q \<noteq> outputDir ex \<longrightarrow> fs st1 q = fs st0 q)) \<and>
   (\<forall>q. fs (snd (Experiment_run ev cfg ex st)) q = Some Dir \<longrightarrow> fs st q = Some Dir) \<and>
   (\<forall>q \<in> artifacts ex i. \<exists>f. q = path_join (outputDir ex) f) \<and>
   (i \<noteq> j \<longrightarrow>
      artifacts ex i \<inter> artifacts ex j = {} \<and>
      (\<forall>q \<in> artifacts ex j. fs (snd (repetition ev cfg ex i st)) q = fs st q))"
proof -
  have a: "Experiment_new ev cfg st0 = (Inr ex, st1) \<longrightarrow>
      outputDir ex = path_join (dirname ev) (dirStamp ev (ticks st0)) \<and>
      fs st1 (outputDir ex) \<noteq> None \<and>
      (fs st0 (outputDir ex) = None \<longrightarrow> fs st1 (outputDir ex) = Some Dir) \<and>
      (\<forall>q. q \<noteq> outputDir ex \<longrightarrow> fs st1 q = fs st0 q)"
    using Experiment_new_makes[of ev cfg st0 ex st1] by blast
  have b: "\<forall>q. fs (snd (Experiment_run ev cfg ex st)) q = Some Dir \<longrightarrow> fs st q = Some Dir"
    using run_from_tame[of st _ ev cfg ex 0] unfolding Experiment_run_def by blast
  have c: "\<forall>q \<in> artifacts ex i. \<exists>f. q = path_join (outputDir ex) f"
    using artifacts_in_outputDir[of _ ex i] by blast
  have d: "i \<noteq> j \<longrightarrow>
      artifacts ex i \<inter> artifacts ex j = {} \<and>
      (\<forall>q \<in> artifacts ex j. fs (snd (repetition ev cfg ex i st)) q = fs st q)"
  proof
    assume ne: "i \<noteq> j"
    then have d: "artifacts ex i \<inter> artifacts ex j = {}" by (rule artifacts_disjoint)
    have "fs (snd (repetition ev cfg ex i st)) q = fs st q" if q: "q \<in> artifacts ex j" for q
    proof (rule repetition_frame)
      from d q have "q \<notin> artifacts ex i" by auto
      then show "q \<noteq> logNetFile ex i" "q \<noteq> logBotFile ex i" "q \<noteq> logHarFile ex i"
        by (simp_all add: artifacts_def)
    qed
    with d show "artifacts ex i \<inter> artifacts ex j = {} \<and>
      (\<forall>q \<in> artifacts ex j. fs (snd (repetition ev cfg ex i st)) q = fs st q)" by blast
  qed
  from a b c d show ?thesis by (intro conjI)
qed

theorem runs_have_disjoint_artifacts_witness:
  "fst (Experiment_new env_ok cfg_demo st_demo) = Inr ex_demo \<and>
   outputDir ex_demo = path_join (dirname env_ok) (dirStamp env_ok (ticks st_demo)) \<and>
   fs st_demo (outputDir ex_demo) = None \<and>
   fs (snd (Experiment_new env_ok cfg_demo st_demo)) (outputDir ex_demo) = Some Dir \<and>
   fs (snd (Experiment_new env_ok cfg_demo st_demo)) ''d/user_data'' = fs st_demo ''d/user_data'' \<and>
   fs (snd (Experiment_run env_ok cfg_demo ex_demo st_demo)) ''d/user_data'' = Some Dir \<and>
   fs st_demo ''d/user_data'' = Some Dir \<and>
   logBotFile ex_demo 0 \<in> artifacts ex_demo 0 \<and>
   (\<exists>f. logBotFile ex_demo 0 = path_join (outputDir ex_demo) f) \<and>
   (1::nat) \<noteq> 0 \<and> artifacts ex_demo 1 \<inter> artifacts ex_demo 0 = {} \<and>
   fs (snd (repetition env_ok cfg_demo ex_demo 1
         (st_demo\<lparr>fs := (fs st_demo)(logBotFile ex_demo 0 \<mapsto> File ''kept'')\<rparr>)))
      (logBotFile ex_demo 0) = Some (File ''kept'')"
proof -
  note t1 = runs_have_disjoint_artifacts [of env_ok cfg_demo st_demo ex_demo
      "snd (Experiment_new env_ok cfg_demo st_demo)" st_demo 0 0]
  note t2 = runs_have_disjoint_artifacts [of env_ok cfg_demo st_demo ex_demo
      "snd (Experiment_new env_ok cfg_demo st_demo)"
      "st_demo\<lparr>fs := (fs st_demo)(logBotFile ex_demo 0 \<mapsto> File ''kept'')\<rparr>" 1 0]
  have e: "Experiment_new env_ok cfg_demo st_demo =
             (Inr ex_demo, snd (Experiment_new env_ok cfg_demo st_demo))"
    using demo_experiment by (rule fst_eq_made)
  have n: "fs st_demo (outputDir ex_demo) = None"
    by (simp add: st_demo_def ex_demo_def)
  have u: "''d/user_data'' \<noteq> outputDir ex_demo" by (simp add: ex_demo_def)
  have m: "logBotFile ex_demo 0 \<in> artifacts ex_demo 0" by (simp add: artifacts_def)
  from t1 e have a1: "outputDir ex_demo = path_join (dirname env_ok) (dirStamp env_ok (ticks st_demo))"
    by blast
  from t1 e n have a2: "fs (snd (Experiment_new env_ok cfg_demo st_demo)) (outputDir ex_demo) = Some Dir"
    by blast
  from t1 e u have a3: "fs (snd (Experiment_new env_ok cfg_demo st_demo)) ''d/user_data'' =
      fs st_demo ''d/user_data''"
    by blast
  from t1 demo_profile_stays have a4: "fs st_demo ''d/user_data'' = Some Dir" by blast
  from t1 m have a5: "\<exists>f. logBotFile ex_demo 0 = path_join (outputDir ex_demo) f" by blast
  from t2 have a6: "artifacts ex_demo 1 \<inter> artifacts ex_demo 0 = {}" by simp
  from t2 m have a7: "fs (snd (repetition env_ok cfg_demo ex_demo 1
         (st_demo\<lparr>fs := (fs st_demo)(logBotFile ex_demo 0 \<mapsto> File ''kept'')\<rparr>)))
      (logBotFile ex_demo 0) = Some (File ''kept'')"
    by simp
  from demo_experiment a1 n a2 a3 demo_profile_stays a4 m a5 a6 a7 show ?thesis by simp
qed

section \<open>Evaluating concrete runs\<close>

lemmas run_defs = try_body_def bind_def return_io_def extcall_def await_call_def flush_def tick_def emit_def
  currentTime_def currentUnix_def awaiting_def path_join_def appendFileSync_def log_event_def log_line_def
  visit_def page_goto_def har_stop_def on_sniffer_def on_browserManager_def set_sniffer_def
  set_browserManager_def Sniffer_new_def Sniffer_start_def Sniffer_stop_def child_kill_def
  capture_writes_def show_pid_def BrowserManager_new_def BrowserManager_launch_def
  BrowserManager_close_def BrowserManager_startHarLogging_def logNetFile_def logBotFile_def
  logHarFile_def show_int_def show_nat.simps digit_char_def os_signals_def begin_repetition_def
  repetition_def catch_handler_def report_failure_def close_if_created_def stop_if_created_def
  existsSync_def unlinkSync_def message_def cfg_demo_def
  cfg_home_def env_ok_def st_demo_def ex_demo_def

section \<open>The preflight check\<close>

text \<open>
  C8: when the directory \<open>user_data\<close> does not exist at the start, the process prints the
  two lines of instructions (each after the date in brackets), and ends with exit status
  1; nothing else has happened by then: the file system is unchanged, so no output
  directory exists, and no run has started. When the directory exists the check does
  nothing; it is made once, before the experiment object is built and the loop starts.
\<close>

theorem preflight_check:
  "(\<not> existsSync (path_join (dirname ev) ''user_data'') st \<longrightarrow>
      main ev cfg st =
        (Exit 1,
         st\<lparr>ticks := Suc (ticks st),
            trace := trace st @
              [ConsoleLog (''['' @ dateString ev (ticks st) @ ''] The 'user_data' directory does not exist.''),
               ConsoleLog (''['' @ dateString ev (ticks st) @
                            ''] Please run 'node register.js' to set up the user data.''),
               ProcessExit 1]\<rparr>)) \<and>
   (existsSync (path_join (dirname ev) ''user_data'') st \<longrightarrow> checkCookies ev st = (None, st))"
  by (simp add: main_def checkCookies_def currentTime_def emit_def tick_def Let_def)

theorem preflight_check_witness:
  "\<not> existsSync (path_join (dirname env_ok) ''user_data'') (st_demo\<lparr>fs := Map.empty\<rparr>) \<and>
   fst (main env_ok cfg_demo (st_demo\<lparr>fs := Map.empty\<rparr>)) = Exit 1 \<and>
   trace (snd (main env_ok cfg_demo (st_demo\<lparr>fs := Map.empty\<rparr>))) =
     [ConsoleLog ''[Tue] The 'user_data' directory does not exist.'',
      ConsoleLog ''[Tue] Please run 'node register.js' to set up the user data.'',
      ProcessExit 1] \<and>
   fs (snd (main env_ok cfg_demo (st_demo\<lparr>fs := Map.empty\<rparr>))) = Map.empty \<and>
   existsSync (path_join (dirname env_ok) ''user_data'') st_demo \<and>
   checkCookies env_ok st_demo = (None, st_demo)"
  using preflight_check [of env_ok "st_demo\<lparr>fs := Map.empty\<rparr>" cfg_demo]
    preflight_check [of env_ok st_demo cfg_demo]
  by (simp add: existsSync_def path_join_def env_ok_def st_demo_def)

section \<open>Stopping the capture controller\<close>

lemma stop_never_started: "snifferProcess s = None \<Longrightarrow> Sniffer_stop ev arg s st = (Inr (), s, st)"
  by (simp add: Sniffer_stop_def)

lemma stop_after_kill:
  "snifferProcess s = Some cp \<Longrightarrow> killed cp \<Longrightarrow> Sniffer_stop ev arg s st = (Inr (), s, st)"
  by (simp add: Sniffer_stop_def)

lemma stop_twice:
  assumes "Sniffer_stop ev arg s st = (Inr (), s1, st1)"
  shows "fst (Sniffer_stop ev arg s1 st1) = Inr () \<and>
         kills (trace (snd (snd (Sniffer_stop ev arg s1 st1)))) = kills (trace st1) \<and>
         fs (snd (snd (Sniffer_stop ev arg s1 st1))) = fs st1"
  using assms
  by (auto simp: Sniffer_stop_def child_kill_def currentTime_def emit_def tick_def kills_def Let_def
      split: option.splits if_splits prod.splits)

lemma stop_again:
  assumes "snifferProcess s = Some cp" "attached cp" "Sniffer_stop ev arg s st = (Inr (), s1, st1)"
  shows "Sniffer_stop ev arg2 s1 st1 = (Inr (), s1, st1)"
  using assms
  by (auto simp: Sniffer_stop_def child_kill_def currentTime_def Let_def
      split: if_splits prod.splits)

lemma stop_default_signal:
  assumes "snifferProcess s = Some cp" "attached cp" "\<not> killed cp"
  shows "kills (trace (snd (snd (Sniffer_stop ev None s st)))) =
         kills (trace st) @ [Kill (pid cp) ''SIGTERM'']"
  using assms
  by (simp add: Sniffer_stop_def child_kill_def currentTime_def emit_def tick_def kills_def Let_def
      os_signals_def)

text \<open>
  C7: \<open>stop\<close> on a controller that was never started does nothing and raises nothing,
  whatever the signal. After a \<open>stop\<close> that returned, a second \<open>stop\<close> with the same
  argument raises nothing, delivers no signal (the trace holds no further \<open>Kill\<close>)
  and leaves the file system alone; when the process was running at the first \<open>stop\<close>,
  a second \<open>stop\<close>, whatever its argument, changes nothing at all. Called without an
  argument on a running process, \<open>stop\<close> delivers exactly the one signal SIGTERM.
\<close>

theorem stop_is_idempotent:
  "(snifferProcess s = None \<longrightarrow> Sniffer_stop ev arg s st = (Inr (), s, st)) \<and>
   (Sniffer_stop ev arg s st = (Inr (), s1, st1) \<longrightarrow>
      fst (Sniffer_stop ev arg s1 st1) = Inr () \<and>
      kills (trace (snd (snd (Sniffer_stop ev arg s1 st1)))) = kills (trace st1) \<and>
      fs (snd (snd (Sniffer_stop ev arg s1 st1))) = fs st1) \<and>
   (snifferProcess s = Some cp \<and> attached cp \<and> Sniffer_stop ev arg s st = (Inr (), s1, st1) \<longrightarrow>
      Sniffer_stop ev arg2 s1 st1 = (Inr (), s1, st1)) \<and>
   (snifferProcess s = Some cp \<and> attached cp \<and> \<not> killed cp \<longrightarrow>
      kills (trace (snd (snd (Sniffer_stop ev None s st)))) =
        kills (trace st) @ [Kill (pid cp) ''SIGTERM''])"
  using stop_never_started [of s ev arg st] stop_twice [of ev arg s st s1 st1]
    stop_again [of s cp ev arg st s1 st1 arg2] stop_default_signal [of s cp ev st]
  by blast

theorem stop_is_idempotent_witness:
  "Sniffer_stop env_ok None (Sniffer_new ''p'') st_demo = (Inr (), Sniffer_new ''p'', st_demo) \<and>
   fst (Sniffer_stop env_ok None sniffer_demo st_demo) = Inr () \<and>
   kills (trace (snd (snd (Sniffer_stop env_ok None sniffer_demo st_demo)))) =
     [Kill (Some 7) ''SIGTERM''] \<and>
   fst (Sniffer_stop env_ok None
          (fst (snd (Sniffer_stop env_ok None sniffer_demo st_demo)))
          (snd (snd (Sniffer_stop env_ok None sniffer_demo st_demo)))) = Inr () \<and>
   kills (trace (snd (snd (Sniffer_stop env_ok None
          (fst (snd (Sniffer_stop env_ok None sniffer_demo st_demo)))
          (snd (snd (Sniffer_stop env_ok None sniffer_demo st_demo))))))) =
     [Kill (Some 7) ''SIGTERM''] \<and>
   Sniffer_stop env_ok (Some ''SIGKILL'')
          (fst (snd (Sniffer_stop env_ok None sniffer_demo st_demo)))
          (snd (snd (Sniffer_stop env_ok None sniffer_demo st_demo))) =
     (Inr (), snd (Sniffer_stop env_ok None sniffer_demo st_demo))"
proof -
  let ?r = "Sniffer_stop env_ok None sniffer_demo st_demo"
  have first: "fst ?r = Inr ()"
    by (simp add: Sniffer_stop_def child_kill_def currentTime_def emit_def tick_def Let_def
        os_signals_def sniffer_demo_def)
  then have eq: "?r = (Inr (), fst (snd ?r), snd (snd ?r))"
    by (metis prod.collapse)
  have k: "kills (trace st_demo) = []" by (simp add: kills_def st_demo_def)
  have p: "snifferProcess sniffer_demo =
             Some \<lparr>pid = Some 7, attached = True, killed = False, exit_listeners = 1\<rparr>"
    by (simp add: sniffer_demo_def)
  from stop_is_idempotent [of "Sniffer_new ''p''" env_ok None st_demo]
  have a: "Sniffer_stop env_ok None (Sniffer_new ''p'') st_demo = (Inr (), Sniffer_new ''p'', st_demo)"
    by (simp add: Sniffer_new_def)
  from stop_is_idempotent [of sniffer_demo env_ok None st_demo "fst (snd ?r)" "snd (snd ?r)"
      "\<lparr>pid = Some 7, attached = True, killed = False, exit_listeners = 1\<rparr>" "Some ''SIGKILL''"] eq p k
  have b: "fst (Sniffer_stop env_ok None (fst (snd ?r)) (snd (snd ?r))) = Inr () \<and>
           kills (trace (snd (snd (Sniffer_stop env_ok None (fst (snd ?r)) (snd (snd ?r)))))) =
             kills (trace (snd (snd ?r))) \<and>
           Sniffer_stop env_ok (Some ''SIGKILL'') (fst (snd ?r)) (snd (snd ?r)) =
             (Inr (), fst (snd ?r), snd (snd ?r)) \<and>
           kills (trace (snd (snd ?r))) = [Kill (Some 7) ''SIGTERM'']"
    by simp
  from a first b show ?thesis by simp
qed

section \<open>Cleaning up after a failed run\<close>

lemma unlinkSync_absent:
  "fs st q = None \<Longrightarrow> fs (snd (unlinkSync ev p st)) q = None"
  by (simp add: unlinkSync_def prim_defs split: option.splits node.splits)

lemma cleanFiles_absent:
  "fs st q = None \<Longrightarrow> fs (snd (cleanFiles ev ps st)) q = None"
proof (induction ps arbitrary: st)
  case Nil
  then show ?case by (simp add: return_io_def)
next
  case (Cons p ps)
  let ?m = "\<lambda>st. if existsSync p st then unlinkSync ev p st else return_io () st"
  have 1: "fs (snd (?m st)) q = None"
    using Cons.prems by (simp add: unlinkSync_absent return_io_def)
  show ?case
  proof (cases "?m st")
    case (Pair r st1)
    with 1 have a: "fs st1 q = None" by simp
    show ?thesis
    proof (cases r)
      case (Inl e)
      with Pair a show ?thesis by (simp add: bind_def)
    next
      case (Inr u)
      with Pair Cons.IH[OF a] show ?thesis by (simp add: bind_def)
    qed
  qed
qed

lemma unlink_step_removes:
  assumes "(if existsSync p st then unlinkSync ev p st else return_io () st) = (Inr u, st1)"
  shows "fs st1 p = None"
  using assms
  by (auto simp: existsSync_def unlinkSync_def prim_defs split: if_splits option.splits node.splits)

lemma cleanFiles_removes:
  "cleanFiles ev ps st = (Inr u, st') \<Longrightarrow> \<forall>p \<in> set ps. fs st' p = None"
proof (induction ps arbitrary: st)
  case Nil
  then show ?case by simp
next
  case (Cons p ps)
  from Cons.prems obtain v st1 where
    1: "(if existsSync p st then unlinkSync ev p st else return_io () st) = (Inr v, st1)"
    and 2: "cleanFiles ev ps st1 = (Inr u, st')"
    by (auto elim: bind_InrE)
  from 1 have "fs st1 p = None" by (rule unlink_step_removes)
  with cleanFiles_absent[of st1 p ev ps] 2 have "fs st' p = None" by simp
  with Cons.IH[OF 2] show ?case by simp
qed

lemma handler_removes:
  assumes "catch_handler ev ex n e st = (Inr u, st')"
  shows "\<forall>q \<in> artifacts ex n. fs st' q = None"
proof -
  from assms[unfolded catch_handler_def] obtain x1 st1 where
    b1: "bind (close_if_created ev) (\<lambda>_.
         bind (cleanFiles ev [logNetFile ex n, logBotFile ex n, logHarFile ex n]) (\<lambda>_.
         stop_if_created ev)) st1 = (Inr u, st')"
    by (rule bind_InrE)
  from b1 obtain x2 st3 where
    b2: "bind (cleanFiles ev [logNetFile ex n, logBotFile ex n, logHarFile ex n]) (\<lambda>_.
         stop_if_created ev) st3 = (Inr u, st')"
    by (rule bind_InrE)
  from b2 obtain x3 st4 where
    c: "cleanFiles ev [logNetFile ex n, logBotFile ex n, logHarFile ex n] st3 = (Inr x3, st4)"
    and s: "stop_if_created ev st4 = (Inr u, st')"
    by (rule bind_InrE)
  from cleanFiles_removes[OF c] have "\<forall>q \<in> artifacts ex n. fs st4 q = None"
    by (simp add: artifacts_def)
  moreover from quiet_stop_if_created[of ev] s have "fs st' = fs st4"
    unfolding quiet_def by (metis snd_conv)
  ultimately show ?thesis by simp
qed


lemma nav_run_fails:
  "fst (try_body env_nav cfg_demo ex_demo 0 (begin_repetition env_nav 0 st_demo)) =
     Inl (Error ''Navigation timeout'')"
  by (simp add: run_defs env_nav_def)

lemma nav_run_wrote:
  "fs (snd (try_body env_nav cfg_demo ex_demo 0 (begin_repetition env_nav 0 st_demo)))
     (logBotFile ex_demo 0) \<noteq> None"
  by (simp add: run_defs env_nav_def)

lemma nav_run_cleaned: "fst (repetition env_nav cfg_demo ex_demo 0 st_demo) = Inr ()"
  by (simp add: run_defs env_nav_def)


section \<open>The schedule of a run\<close>

lemma schedule_append [simp]: "schedule (xs @ ys) = schedule xs @ schedule ys"
  by (simp add: schedule_def)

lemma schedule_errors [simp]: "schedule (map ConsoleError xs) = []"
  by (induction xs) (simp_all add: schedule_def paced_def)

lemma schedule_Nil [simp]: "schedule [] = []"
  by (simp add: schedule_def)

lemma schedule_Cons [simp]: "schedule (c # cs) = (if paced c then [c] else []) @ schedule cs"
  by (simp add: schedule_def)

lemma paced_simps [simp]:
  "paced (Timeout ms)" "paced (Goto u)" "paced (HarStop p)"
  "\<not> paced (AppendFile p s)" "\<not> paced (Unlink p)" "\<not> paced (Mkdir p)" "\<not> paced (Spawn b as)"
  "\<not> paced (Kill n sg)" "\<not> paced PuppeteerLaunch" "\<not> paced BrowserPages" "\<not> paced BrowserClose"
  "\<not> paced (HarStart p)" "\<not> paced (ConsoleLog s)" "\<not> paced (ConsoleError s)"
  "\<not> paced (ProcessExit k)"
  by (simp_all add: paced_def)

lemma steps_bind:
  assumes "steps m cs1" and "\<And>x. steps (f x) cs"
  shows "steps (bind m f) (cs1 @ cs)"
proof -
  have "schedule (trace st'') = schedule (trace st) @ cs1 @ cs"
    if b: "bind m f st = (Inr y, st'')" for st y st''
  proof -
    from b obtain x st' where 1: "m st = (Inr x, st')" and 2: "f x st' = (Inr y, st'')"
      by (rule bind_InrE)
    from assms(1) 1 have "schedule (trace st') = schedule (trace st) @ cs1"
      unfolding steps_def by blast
    moreover from assms(2)[of x] 2 have "schedule (trace st'') = schedule (trace st') @ cs"
      unfolding steps_def by blast
    ultimately show ?thesis by simp
  qed
  then show ?thesis unfolding steps_def by blast
qed

lemma steps_bind_none: "steps m [] \<Longrightarrow> (\<And>x. steps (f x) cs) \<Longrightarrow> steps (bind m f) cs"
  using steps_bind[of m "[]" f cs] by simp

lemma steps_awaiting: "steps (awaiting ms) [Timeout ms]"
  by (auto simp: steps_def awaiting_def flush_def emit_def)

lemma steps_bind_awaiting:
  "(\<And>x. steps (f x) cs) \<Longrightarrow> steps (bind (awaiting ms) f) (Timeout ms # cs)"
  using steps_bind[OF steps_awaiting, of f cs ms] by simp

lemma steps_return [simp]: "steps (return_io x) []"
  by (simp add: steps_def return_io_def)

lemma steps_extcall: "steps (extcall ev c) (if paced c then [c] else [])"
  by (auto simp: steps_def extcall_def tick_def emit_def split: option.splits)

lemma steps_await_call: "steps (await_call ev c) (if paced c then [c] else [])"
  by (auto simp: steps_def await_call_def extcall_def flush_def tick_def emit_def split: option.splits)

lemma steps_currentUnix [simp]: "steps (currentUnix ev) []"
  by (auto simp: steps_def currentUnix_def tick_def)

lemma steps_appendFileSync [simp]: "steps (appendFileSync ev p s) []"
  unfolding appendFileSync_def
  by (rule steps_bind_none, use steps_extcall[of ev "AppendFile p s"] in simp)
     (auto simp: steps_def split: option.splits node.splits)

lemma steps_log_event [simp]: "steps (log_event ev p nm x) []"
  unfolding log_event_def by (intro steps_bind_none steps_currentUnix steps_appendFileSync)

lemma steps_page_goto: "steps (page_goto ev u) [Goto u]"
  unfolding page_goto_def using steps_await_call[of ev "Goto u"] by simp

lemma steps_bind_page_goto:
  "(\<And>x. steps (f x) cs) \<Longrightarrow> steps (bind (page_goto ev u) f) (Goto u # cs)"
  using steps_bind[OF steps_page_goto, of f cs ev u] by simp

lemma steps_har_stop: "steps (har_stop ev p) [HarStop p]"
proof -
  have "steps (har_stop ev p) ([HarStop p] @ [])"
    unfolding har_stop_def
    by (rule steps_bind, use steps_await_call[of ev "HarStop p"] in simp)
       (auto simp: steps_def split: option.splits node.splits)
  then show ?thesis by simp
qed

lemma steps_bind_har_stop:
  "(\<And>x. steps (f x) cs) \<Longrightarrow> steps (bind (har_stop ev p) f) (HarStop p # cs)"
  using steps_bind[OF steps_har_stop, of f cs ev p] by simp

lemma steps_set_sniffer [simp]: "steps (set_sniffer s) []"
  by (auto simp: steps_def set_sniffer_def)

lemma steps_set_browserManager [simp]: "steps (set_browserManager b) []"
  by (auto simp: steps_def set_browserManager_def)

lemma steps_on_sniffer:
  assumes "\<And>s st r s' st'. f s st = (r, s', st') \<Longrightarrow> schedule (trace st') = schedule (trace st)"
  shows "steps (on_sniffer f) []"
proof -
  have "schedule (trace st') = schedule (trace st)" if a: "on_sniffer f st = (Inr x, st')" for st x st'
  proof (cases "sniffer st")
    case None
    with a show ?thesis by (simp add: on_sniffer_def)
  next
    case (Some s)
    obtain r s1 st1 where R: "f s st = (r, s1, st1)" by (cases "f s st") auto
    with a Some assms[OF R] show ?thesis by (auto simp: on_sniffer_def)
  qed
  then show ?thesis by (simp add: steps_def)
qed

lemma steps_on_browserManager:
  assumes "\<And>s st r s' st'. f s st = (r, s', st') \<Longrightarrow> schedule (trace st') = schedule (trace st)"
  shows "steps (on_browserManager f) []"
proof -
  have "schedule (trace st') = schedule (trace st)"
    if a: "on_browserManager f st = (Inr x, st')" for st x st'
  proof (cases "browserManager st")
    case None
    with a show ?thesis by (simp add: on_browserManager_def)
  next
    case (Some s)
    obtain r s1 st1 where R: "f s st = (r, s1, st1)" by (cases "f s st") auto
    with a Some assms[OF R] show ?thesis by (auto simp: on_browserManager_def)
  qed
  then show ?thesis by (simp add: steps_def)
qed

lemma await_call_schedule:
  "\<not> paced c \<Longrightarrow> await_call ev c st = (r, st') \<Longrightarrow> schedule (trace st') = schedule (trace st)"
  by (auto simp: await_call_def extcall_def flush_def tick_def emit_def split: option.splits)

lemma steps_Sniffer_start [simp]: "steps (on_sniffer (Sniffer_start ev cfg)) []"
  by (rule steps_on_sniffer)
     (auto simp: Sniffer_start_def extcall_def currentTime_def capture_writes_def tick_def emit_def
        Let_def split: option.splits spawn_result.splits node.splits)

lemma steps_Sniffer_stop [simp]: "steps (on_sniffer (Sniffer_stop ev arg)) []"
  by (rule steps_on_sniffer)
     (auto simp: Sniffer_stop_def child_kill_def currentTime_def tick_def emit_def
        Let_def split: option.splits if_splits)

lemma steps_launch [simp]: "steps (on_browserManager (BrowserManager_launch ev)) []"
  by (rule steps_on_browserManager)
     (auto simp: BrowserManager_launch_def Let_def split: prod.splits sum.splits if_splits
        dest!: await_call_schedule[rotated])

lemma steps_close [simp]: "steps (on_browserManager (BrowserManager_close ev)) []"
  by (rule steps_on_browserManager)
     (auto simp: BrowserManager_close_def flush_def split: prod.splits if_splits
        dest!: await_call_schedule[rotated])

lemma steps_startHar [simp]: "steps (on_browserManager (BrowserManager_startHarLogging ev p)) []"
  by (rule steps_on_browserManager)
     (auto simp: BrowserManager_startHarLogging_def split: prod.splits sum.splits
        dest!: await_call_schedule[rotated])

lemma steps_bind_startHar:
  assumes "steps (f p) cs"
  shows "steps (bind (on_browserManager (BrowserManager_startHarLogging ev p)) f) cs"
proof -
  let ?m = "on_browserManager (BrowserManager_startHarLogging ev p)"
  have "schedule (trace st'') = schedule (trace st) @ cs"
    if b: "bind ?m f st = (Inr y, st'')" for st y st''
  proof -
    from b obtain x st' where 1: "?m st = (Inr x, st')" and 2: "f x st' = (Inr y, st'')"
      by (rule bind_InrE)
    from 1 have xp: "x = p" by (rule startHar_value)
    from steps_startHar[of ev p] 1 have "schedule (trace st') = schedule (trace st)"
      unfolding steps_def by fastforce
    moreover from assms 2[unfolded xp] have "schedule (trace st'') = schedule (trace st') @ cs"
      unfolding steps_def by blast
    ultimately show ?thesis by simp
  qed
  then show ?thesis unfolding steps_def by blast
qed

lemma steps_visit: "steps (visit ev cfg ex p x ch) (visit_steps cfg ex ch)"
  unfolding visit_def visit_steps_def
  by (intro steps_bind_awaiting steps_bind_page_goto steps_bind_none steps_awaiting; simp)

lemma steps_visit_all:
  "steps (visit_all ev cfg ex p x chs) (concat (map (visit_steps cfg ex) chs))"
proof (induction chs)
  case Nil
  then show ?case by simp
next
  case (Cons ch chs)
  from steps_bind[OF steps_visit, of "\<lambda>_. visit_all ev cfg ex p x chs" _ ev cfg ex p x ch] Cons
  show ?case by simp
qed

lemma steps_bind_visit_all:
  "(\<And>y. steps (f y) cs) \<Longrightarrow>
   steps (bind (visit_all ev cfg ex p x chs) f) (concat (map (visit_steps cfg ex) chs) @ cs)"
  by (rule steps_bind[OF steps_visit_all])

lemma steps_try_body:
  "steps (try_body ev cfg ex n)
     (Timeout (fastAwait ex) # Goto (cfg_homepage cfg) # Timeout (longAwait ex) #
      (concat (map (visit_steps cfg ex) (cfg_channels cfg)) @
       [HarStop (logHarFile ex n), Timeout (longAwait ex * 2)]))"
  unfolding try_body_def
  by (intro steps_bind_startHar steps_bind_awaiting steps_bind_page_goto steps_bind_visit_all
      steps_bind_har_stop steps_bind_none; simp)

section \<open>The event log of a run\<close>

lemma stamped_Nil [simp]: "stamped ev origin [] ks = []"
  by (simp add: stamped_def)

lemma stamped_append:
  "length ks1 = length n1 \<Longrightarrow>
   stamped ev origin (n1 @ n2) (ks1 @ ks2) = stamped ev origin n1 ks1 @ stamped ev origin n2 ks2"
  by (simp add: stamped_def)

lemma stamped_Cons [simp]:
  "stamped ev origin (nm # nms) (k # ks) =
     log_line nm (clock ev k) (clock ev k - origin) @ stamped ev origin nms ks"
  by (simp add: stamped_def)

lemma appendsD:
  assumes "appends ev p origin m nms"
    and "sniffer_path st \<noteq> Some p" and "fs st p = Some (File t)" and "m st = (Inr x, st')"
  shows "sniffer_path st' \<noteq> Some p \<and> ticks st \<le> ticks st' \<and>
        (\<exists>ks. length ks = length nms \<and> sorted_wrt (<) ks \<and>
              (\<forall>k \<in> set ks. ticks st \<le> k \<and> k < ticks st') \<and>
              fs st' p = Some (File (t @ stamped ev origin nms ks)))"
  using assms unfolding appends_def by blast

lemma appends_bind:
  assumes m: "appends ev p origin m n1" and f: "\<And>x. appends ev p origin (f x) n2"
  shows "appends ev p origin (bind m f) (n1 @ n2)"
proof -
  have "sniffer_path st'' \<noteq> Some p \<and> ticks st \<le> ticks st'' \<and>
        (\<exists>ks. length ks = length (n1 @ n2) \<and> sorted_wrt (<) ks \<and>
              (\<forall>k \<in> set ks. ticks st \<le> k \<and> k < ticks st'') \<and>
              fs st'' p = Some (File (t @ stamped ev origin (n1 @ n2) ks)))"
    if sp: "sniffer_path st \<noteq> Some p" and ft: "fs st p = Some (File t)"
      and b: "bind m f st = (Inr y, st'')" for st y st'' t
  proof -
    from b obtain x st' where 1: "m st = (Inr x, st')" and 2: "f x st' = (Inr y, st'')"
      by (rule bind_InrE)
    from appendsD[OF m sp ft 1] obtain ks1 where
      a1: "sniffer_path st' \<noteq> Some p" "ticks st \<le> ticks st'" "length ks1 = length n1"
        "sorted_wrt (<) ks1" "\<forall>k \<in> set ks1. ticks st \<le> k \<and> k < ticks st'"
        "fs st' p = Some (File (t @ stamped ev origin n1 ks1))"
      by blast
    from appendsD[OF f a1(1) a1(6) 2] obtain ks2 where
      a2: "sniffer_path st'' \<noteq> Some p" "ticks st' \<le> ticks st''" "length ks2 = length n2"
        "sorted_wrt (<) ks2" "\<forall>k \<in> set ks2. ticks st' \<le> k \<and> k < ticks st''"
        "fs st'' p = Some (File ((t @ stamped ev origin n1 ks1) @ stamped ev origin n2 ks2))"
      by blast
    have s: "sorted_wrt (<) (ks1 @ ks2)"
      using a1(4,5) a2(4,5) by (fastforce simp: sorted_wrt_append)
    have r: "\<forall>k \<in> set (ks1 @ ks2). ticks st \<le> k \<and> k < ticks st''"
      using a1(2,5) a2(2,5) by fastforce
    have c: "fs st'' p = Some (File (t @ stamped ev origin (n1 @ n2) (ks1 @ ks2)))"
      using a2(6) a1(3) by (simp add: stamped_append)
    have l: "length (ks1 @ ks2) = length (n1 @ n2)" using a1(3) a2(3) by simp
    from a2(1) a1(2) a2(2) l s r c show ?thesis by (intro conjI exI[of _ "ks1 @ ks2"]) simp_all
  qed
  then show ?thesis unfolding appends_def by blast
qed

lemma appends_bind_quiet:
  "appends ev p origin m [] \<Longrightarrow> (\<And>x. appends ev p origin (f x) ns) \<Longrightarrow>
   appends ev p origin (bind m f) ns"
  using appends_bind[of ev p origin m "[]" f ns] by simp

lemma quiet_appends: "quiet m \<Longrightarrow> appends ev p origin m []"
  unfolding quiet_def appends_def by (metis length_0_conv snd_conv sorted_wrt.simps(1) empty_iff
      list.set(1) stamped_Nil append_Nil2)

lemma appends_log_event: "appends ev p origin (log_event ev p nm origin) [nm]"
proof -
  have "sniffer_path st' \<noteq> Some p \<and> ticks st \<le> ticks st' \<and>
        (\<exists>ks. length ks = length [nm] \<and> sorted_wrt (<) ks \<and>
              (\<forall>k \<in> set ks. ticks st \<le> k \<and> k < ticks st') \<and>
              fs st' p = Some (File (t @ stamped ev origin [nm] ks)))"
    if sp: "sniffer_path st \<noteq> Some p" and ft: "fs st p = Some (File t)"
      and b: "log_event ev p nm origin st = (Inr y, st')" for st y st' t
  proof -
    from b ft sp have 1: "sniffer_path st' \<noteq> Some p" and 2: "ticks st' = Suc (Suc (ticks st))"
      and 3: "fs st' p = Some (File (t @ log_line nm (clock ev (ticks st)) (clock ev (ticks st) - origin)))"
      by (auto simp: log_event_def currentUnix_def appendFileSync_def prim_defs
          split: option.splits node.splits)
    from 1 2 3 show ?thesis by (intro conjI exI[of _ "[ticks st]"]) simp_all
  qed
  then show ?thesis unfolding appends_def by blast
qed

lemma appends_bind_log:
  "(\<And>x. appends ev p origin (f x) ns) \<Longrightarrow>
   appends ev p origin (bind (log_event ev p nm origin) f) (nm # ns)"
  using appends_bind[OF appends_log_event, of ev p origin f ns nm] by simp

lemma keeps_appends:
  assumes k: "keeps p m" and g: "\<And>st. ticks st \<le> ticks (snd (m st))"
  shows "appends ev p origin m []"
proof -
  have "sniffer_path st' \<noteq> Some p \<and> ticks st \<le> ticks st' \<and>
        (\<exists>ks. length ks = length ([]::string list) \<and> sorted_wrt (<) ks \<and>
              (\<forall>k \<in> set ks. ticks st \<le> k \<and> k < ticks st') \<and>
              fs st' p = Some (File (t @ stamped ev origin [] ks)))"
    if sp: "sniffer_path st \<noteq> Some p" and ft: "fs st p = Some (File t)"
      and b: "m st = (Inr y, st')" for st y st' t
  proof -
    from k sp have "fs (snd (m st)) p = fs st p \<and> sniffer_path (snd (m st)) \<noteq> Some p"
      unfolding keeps_def by blast
    with b ft g[of st] show ?thesis by (intro conjI exI[of _ "[]"]) simp_all
  qed
  then show ?thesis unfolding appends_def by blast
qed

lemma har_stop_ticks: "ticks st \<le> ticks (snd (har_stop ev q st))"
  by (simp add: har_stop_def prim_defs split: option.splits node.splits)

lemma appends_har_stop: "q \<noteq> p \<Longrightarrow> appends ev p origin (har_stop ev q) []"
  by (rule keeps_appends) (simp_all add: keeps_har_stop har_stop_ticks)

lemma Sniffer_start_ticks: "ticks st \<le> ticks (snd (snd (Sniffer_start ev cfg s st)))"
  by (simp add: Sniffer_start_def extcall_def currentTime_def capture_writes_def tick_def emit_def Let_def
      split: option.splits spawn_result.splits node.splits)

lemma on_sniffer_start_ticks: "ticks st \<le> ticks (snd (on_sniffer (Sniffer_start ev cfg) st))"
proof (cases "sniffer st")
  case None
  then show ?thesis by (simp add: on_sniffer_def)
next
  case (Some s)
  obtain r s' st' where R: "Sniffer_start ev cfg s st = (r, s', st')"
    by (cases "Sniffer_start ev cfg s st") auto
  with Sniffer_start_ticks[of st ev cfg s] Some show ?thesis by (simp add: on_sniffer_def)
qed

lemma appends_Sniffer_start: "appends ev p origin (on_sniffer (Sniffer_start ev cfg)) []"
  by (rule keeps_appends) (simp_all add: keeps_Sniffer_start on_sniffer_start_ticks)

lemma appends_bind_startHar:
  assumes "appends ev p origin (f q) ns"
  shows "appends ev p origin (bind (on_browserManager (BrowserManager_startHarLogging ev q)) f) ns"
proof -
  let ?m = "on_browserManager (BrowserManager_startHarLogging ev q)"
  have "sniffer_path st'' \<noteq> Some p \<and> ticks st \<le> ticks st'' \<and>
        (\<exists>ks. length ks = length ns \<and> sorted_wrt (<) ks \<and>
              (\<forall>k \<in> set ks. ticks st \<le> k \<and> k < ticks st'') \<and>
              fs st'' p = Some (File (t @ stamped ev origin ns ks)))"
    if sp: "sniffer_path st \<noteq> Some p" and ft: "fs st p = Some (File t)"
      and b: "bind ?m f st = (Inr y, st'')" for st y st'' t
  proof -
    from b obtain x st' where 1: "?m st = (Inr x, st')" and 2: "f x st' = (Inr y, st'')"
      by (rule bind_InrE)
    from 1 have xq: "x = q" by (rule startHar_value)
    have "quiet ?m" by simp
    then have "fs (snd (?m st)) = fs st \<and> sniffer_path (snd (?m st)) = sniffer_path st \<and>
               ticks st \<le> ticks (snd (?m st))" unfolding quiet_def by blast
    with 1 sp ft have 3: "sniffer_path st' \<noteq> Some p" "fs st' p = Some (File t)" "ticks st \<le> ticks st'"
      by simp_all
    from appendsD[OF assms 3(1) 3(2) 2[unfolded xq]] 3(3) show ?thesis by fastforce
  qed
  then show ?thesis unfolding appends_def by blast
qed

lemma appends_visit:
  "appends ev p origin (visit ev cfg ex p origin ch) [chan_name ch @ ''-on'', chan_name ch @ ''-off'']"
  unfolding visit_def
  by (intro appends_bind_log appends_bind_quiet quiet_appends; simp)

lemma appends_visit_all:
  "appends ev p origin (visit_all ev cfg ex p origin chs) (channel_events chs)"
proof (induction chs)
  case Nil
  then show ?case by (simp add: channel_events_def quiet_appends)
next
  case (Cons ch chs)
  from appends_bind[OF appends_visit, of ev p origin "\<lambda>_. visit_all ev cfg ex p origin chs"
      "channel_events chs" cfg ex ch] Cons
  show ?case by (simp add: channel_events_def)
qed

lemma appends_bind_visit_all:
  "(\<And>y. appends ev p origin (f y) ns) \<Longrightarrow>
   appends ev p origin (bind (visit_all ev cfg ex p origin chs) f) (channel_events chs @ ns)"
  by (rule appends_bind[OF appends_visit_all])

text \<open>The part of the try block after the capture controller has been created.\<close>

lemma appends_tail:
  "appends ev (logBotFile ex n) origin
     (bind (on_sniffer (Sniffer_start ev cfg)) (\<lambda>_.
      bind (log_event ev (logBotFile ex n) ''sniffer-on'' origin) (\<lambda>_.
      bind (set_browserManager BrowserManager_new) (\<lambda>_.
      bind (on_browserManager (BrowserManager_launch ev)) (\<lambda>_.
      bind (log_event ev (logBotFile ex n) ''browser-on'' origin) (\<lambda>_.
      bind (awaiting (fastAwait ex)) (\<lambda>_.
      bind (on_browserManager (BrowserManager_startHarLogging ev (logHarFile ex n))) (\<lambda>harLogger.
      bind (page_goto ev (cfg_homepage cfg)) (\<lambda>_.
      bind (awaiting (longAwait ex)) (\<lambda>_.
      bind (visit_all ev cfg ex (logBotFile ex n) origin (cfg_channels cfg)) (\<lambda>_.
      bind (har_stop ev harLogger) (\<lambda>_.
      bind (on_browserManager (BrowserManager_close ev)) (\<lambda>_.
      bind (log_event ev (logBotFile ex n) ''browser-off'' origin) (\<lambda>_.
      bind (awaiting (longAwait ex * 2)) (\<lambda>_.
      bind (on_sniffer (Sniffer_stop ev None)) (\<lambda>_.
      log_event ev (logBotFile ex n) ''sniffer-off'' origin))))))))))))))))
     (''sniffer-on'' # ''browser-on'' # (channel_events (cfg_channels cfg) @
        [''browser-off'', ''sniffer-off'']))"
  by (intro appends_bind_log appends_bind_visit_all appends_bind_startHar appends_bind_quiet
      appends_log_event appends_Sniffer_start appends_har_stop quiet_appends; simp)

lemma render_entries: "render (entries ev origin nms ks) = stamped ev origin nms ks"
  by (simp add: render_def entries_def stamped_def comp_def case_prod_unfold)

lemma appendFileSync_ok:
  assumes "appendFileSync ev p s st = (Inr x, st')"
  shows "fs st' = (fs st)(p \<mapsto> File (file_text p st @ s))" and "ticks st' = Suc (ticks st)"
    and "sniffer st' = sniffer st"
  using assms
  by (auto simp: appendFileSync_def prim_defs file_text_def split: option.splits node.splits)

lemma appendsE:
  assumes "appends ev p origin m nms"
    and "sniffer_path st \<noteq> Some p" and "fs st p = Some (File t)" and "m st = (Inr x, st')"
  obtains ks where "sniffer_path st' \<noteq> Some p" and "ticks st \<le> ticks st'"
    and "length ks = length nms" and "sorted_wrt (<) ks"
    and "\<forall>k \<in> set ks. ticks st \<le> k \<and> k < ticks st'"
    and "fs st' p = Some (File (t @ stamped ev origin nms ks))"
  using appendsD[OF assms] by blast

lemma try_body_log:
  assumes "try_body ev cfg ex n st = (Inr u, st')"
  shows "\<exists>ks. length ks = length (''sniffer-on'' # ''browser-on'' #
                   (channel_events (cfg_channels cfg) @ [''browser-off'', ''sniffer-off''])) \<and>
              sorted_wrt (<) ks \<and>
              (\<forall>k \<in> set ks. Suc (ticks st) < k \<and> k < ticks st') \<and>
              fs st' (logBotFile ex n) =
                Some (File (file_text (logBotFile ex n) st @ ''event abs rel\<newline>'' @
                  stamped ev (clock ev (Suc (ticks st)))
                    (''origin'' # ''sniffer-on'' # ''browser-on'' #
                       (channel_events (cfg_channels cfg) @ [''browser-off'', ''sniffer-off'']))
                    (Suc (ticks st) # ks)))"
proof -
  let ?bot = "logBotFile ex n"
  let ?nms = "''sniffer-on'' # ''browser-on'' #
                (channel_events (cfg_channels cfg) @ [''browser-off'', ''sniffer-off''])"
  from assms[unfolded try_body_def] obtain x1 s1 where
    a1: "appendFileSync ev ?bot ''event abs rel\<newline>'' st = (Inr x1, s1)"
    and r1: "bind (currentUnix ev) (\<lambda>originTime.
     bind (appendFileSync ev ?bot (log_line ''origin'' originTime 0)) (\<lambda>_.
     bind (set_sniffer (Sniffer_new (logNetFile ex n))) (\<lambda>_.
     bind (on_sniffer (Sniffer_start ev cfg)) (\<lambda>_.
     bind (log_event ev ?bot ''sniffer-on'' originTime) (\<lambda>_.
     bind (set_browserManager BrowserManager_new) (\<lambda>_.
     bind (on_browserManager (BrowserManager_launch ev)) (\<lambda>_.
     bind (log_event ev ?bot ''browser-on'' originTime) (\<lambda>_.
     bind (awaiting (fastAwait ex)) (\<lambda>_.
     bind (on_browserManager (BrowserManager_startHarLogging ev (logHarFile ex n))) (\<lambda>harLogger.
     bind (page_goto ev (cfg_homepage cfg)) (\<lambda>_.
     bind (awaiting (longAwait ex)) (\<lambda>_.
     bind (visit_all ev cfg ex ?bot originTime (cfg_channels cfg)) (\<lambda>_.
     bind (har_stop ev harLogger) (\<lambda>_.
     bind (on_browserManager (BrowserManager_close ev)) (\<lambda>_.
     bind (log_event ev ?bot ''browser-off'' originTime) (\<lambda>_.
     bind (awaiting (longAwait ex * 2)) (\<lambda>_.
     bind (on_sniffer (Sniffer_stop ev None)) (\<lambda>_.
     log_event ev ?bot ''sniffer-off'' originTime)))))))))))))))))) s1 = (Inr u, st')"
    by (rule bind_InrE)
  from r1 obtain origin s2 where
    a2: "currentUnix ev s1 = (Inr origin, s2)"
    and r2: "bind (appendFileSync ev ?bot (log_line ''origin'' origin 0)) (\<lambda>_.
     bind (set_sniffer (Sniffer_new (logNetFile ex n))) (\<lambda>_.
     bind (on_sniffer (Sniffer_start ev cfg)) (\<lambda>_.
     bind (log_event ev ?bot ''sniffer-on'' origin) (\<lambda>_.
     bind (set_browserManager BrowserManager_new) (\<lambda>_.
     bind (on_browserManager (BrowserManager_launch ev)) (\<lambda>_.
     bind (log_event ev ?bot ''browser-on'' origin) (\<lambda>_.
     bind (awaiting (fastAwait ex)) (\<lambda>_.
     bind (on_browserManager (BrowserManager_startHarLogging ev (logHarFile ex n))) (\<lambda>harLogger.
     bind (page_goto ev (cfg_homepage cfg)) (\<lambda>_.
     bind (awaiting (longAwait ex)) (\<lambda>_.
     bind (visit_all ev cfg ex ?bot origin (cfg_channels cfg)) (\<lambda>_.
     bind (har_stop ev harLogger) (\<lambda>_.
     bind (on_browserManager (BrowserManager_close ev)) (\<lambda>_.
     bind (log_event ev ?bot ''browser-off'' origin) (\<lambda>_.
     bind (awaiting (longAwait ex * 2)) (\<lambda>_.
     bind (on_sniffer (Sniffer_stop ev None)) (\<lambda>_.
     log_event ev ?bot ''sniffer-off'' origin))))))))))))))))) s2 = (Inr u, st')"
    by (rule bind_InrE)
  from r2 obtain x3 s3 where
    a3: "appendFileSync ev ?bot (log_line ''origin'' origin 0) s2 = (Inr x3, s3)"
    and r3: "bind (set_sniffer (Sniffer_new (logNetFile ex n))) (\<lambda>_.
     bind (on_sniffer (Sniffer_start ev cfg)) (\<lambda>_.
     bind (log_event ev ?bot ''sniffer-on'' origin) (\<lambda>_.
     bind (set_browserManager BrowserManager_new) (\<lambda>_.
     bind (on_browserManager (BrowserManager_launch ev)) (\<lambda>_.
     bind (log_event ev ?bot ''browser-on'' origin) (\<lambda>_.
     bind (awaiting (fastAwait ex)) (\<lambda>_.
     bind (on_browserManager (BrowserManager_startHarLogging ev (logHarFile ex n))) (\<lambda>harLogger.
     bind (page_goto ev (cfg_homepage cfg)) (\<lambda>_.
     bind (awaiting (longAwait ex)) (\<lambda>_.
     bind (visit_all ev cfg ex ?bot origin (cfg_channels cfg)) (\<lambda>_.
     bind (har_stop ev harLogger) (\<lambda>_.
     bind (on_browserManager (BrowserManager_close ev)) (\<lambda>_.
     bind (log_event ev ?bot ''browser-off'' origin) (\<lambda>_.
     bind (awaiting (longAwait ex * 2)) (\<lambda>_.
     bind (on_sniffer (Sniffer_stop ev None)) (\<lambda>_.
     log_event ev ?bot ''sniffer-off'' origin)))))))))))))))) s3 = (Inr u, st')"
    by (rule bind_InrE)
  from r3 obtain x4 s4 where
    a4: "set_sniffer (Sniffer_new (logNetFile ex n)) s3 = (Inr x4, s4)"
    and r4: "bind (on_sniffer (Sniffer_start ev cfg)) (\<lambda>_.
     bind (log_event ev ?bot ''sniffer-on'' origin) (\<lambda>_.
     bind (set_browserManager BrowserManager_new) (\<lambda>_.
     bind (on_browserManager (BrowserManager_launch ev)) (\<lambda>_.
     bind (log_event ev ?bot ''browser-on'' origin) (\<lambda>_.
     bind (awaiting (fastAwait ex)) (\<lambda>_.
     bind (on_browserManager (BrowserManager_startHarLogging ev (logHarFile ex n))) (\<lambda>harLogger.
     bind (page_goto ev (cfg_homepage cfg)) (\<lambda>_.
     bind (awaiting (longAwait ex)) (\<lambda>_.
     bind (visit_all ev cfg ex ?bot origin (cfg_channels cfg)) (\<lambda>_.
     bind (har_stop ev harLogger) (\<lambda>_.
     bind (on_browserManager (BrowserManager_close ev)) (\<lambda>_.
     bind (log_event ev ?bot ''browser-off'' origin) (\<lambda>_.
     bind (awaiting (longAwait ex * 2)) (\<lambda>_.
     bind (on_sniffer (Sniffer_stop ev None)) (\<lambda>_.
     log_event ev ?bot ''sniffer-off'' origin))))))))))))))) s4 = (Inr u, st')"
    by (rule bind_InrE)
  from appendFileSync_ok[OF a1] have f1: "fs s1 ?bot = Some (File (file_text ?bot st @ ''event abs rel\<newline>''))"
    and t1: "ticks s1 = Suc (ticks st)" by simp_all
  from a2 t1 have o: "origin = clock ev (Suc (ticks st))" and t2: "ticks s2 = Suc (Suc (ticks st))"
    and f2: "fs s2 = fs s1"
    by (auto simp: currentUnix_def tick_def)
  from f1 f2 have ft2: "file_text ?bot s2 = file_text ?bot st @ ''event abs rel\<newline>''"
    by (simp add: file_text_def)
  from appendFileSync_ok[OF a3] ft2 t2
  have f3: "fs s3 ?bot = Some (File ((file_text ?bot st @ ''event abs rel\<newline>'') @ log_line ''origin'' origin 0))"
    and t3: "ticks s3 = Suc (Suc (Suc (ticks st)))" by simp_all
  from a4 f3 t3 have f4: "fs s4 ?bot = Some (File ((file_text ?bot st @ ''event abs rel\<newline>'') @ log_line ''origin'' origin 0))"
    and t4: "ticks s4 = Suc (Suc (Suc (ticks st)))" and p4: "sniffer_path s4 \<noteq> Some ?bot"
    by (auto simp: set_sniffer_def sniffer_path_def Sniffer_new_def)
  from appends_tail p4 f4 r4 obtain ks where
    k: "length ks = length ?nms" "sorted_wrt (<) ks" "\<forall>k \<in> set ks. ticks s4 \<le> k \<and> k < ticks st'"
      "fs st' ?bot = Some (File (((file_text ?bot st @ ''event abs rel\<newline>'') @
          log_line ''origin'' origin 0) @ stamped ev origin ?nms ks))"
    by (rule appendsE)
  from k(3) t4 have b: "\<forall>k \<in> set ks. Suc (ticks st) < k \<and> k < ticks st'" by auto
  from k(4) o have c: "fs st' ?bot = Some (File (file_text ?bot st @ ''event abs rel\<newline>'' @
      stamped ev (clock ev (Suc (ticks st))) (''origin'' # ?nms) (Suc (ticks st) # ks)))"
    by simp
  from k(1) k(2) b c show ?thesis by (intro exI[of _ ks] conjI)
qed

lemma length_channel_events [simp]: "length (channel_events chs) = 2 * length chs"
  by (induction chs) (simp_all add: channel_events_def)

lemma map_fst_entries: "length ks = length nms \<Longrightarrow> map fst (entries ev origin nms ks) = nms"
  by (simp add: entries_def comp_def case_prod_unfold)

lemma length_entries: "length ks = length nms \<Longrightarrow> length (entries ev origin nms ks) = length nms"
  by (simp add: entries_def)

lemma offsets_entries:
  "length ks = length nms \<Longrightarrow>
   map (snd \<circ> snd) (entries ev origin nms ks) = map (\<lambda>k. clock ev k - origin) ks"
proof -
  assume l: "length ks = length nms"
  have "map (snd \<circ> snd) (entries ev origin nms ks) =
        map (\<lambda>k. clock ev k - origin) (map snd (zip nms ks))"
    by (simp add: entries_def comp_def case_prod_unfold)
  also have "map snd (zip nms ks) = ks" using l by (simp add: map_snd_zip)
  finally show ?thesis .
qed

lemma entries_offset:
  "e \<in> set (entries ev origin nms ks) \<Longrightarrow> snd (snd e) = fst (snd e) - origin"
  by (auto simp: entries_def dest!: set_zip_rightD)

lemma sorted_offsets:
  assumes "sorted_wrt (<) ks" and "\<forall>k \<in> set ks. lo \<le> k \<and> k < hi"
    and "\<forall>i j. lo \<le> i \<and> i \<le> j \<and> j < hi \<longrightarrow> clock ev i \<le> clock ev j"
  shows "sorted (map (\<lambda>k. clock ev k - origin) ks)"
proof -
  have "sorted_wrt (\<lambda>x y. clock ev x - origin \<le> clock ev y - origin) ks"
  proof (rule sorted_wrt_mono_rel[OF _ assms(1)])
    fix x y assume "x \<in> set ks" "y \<in> set ks" "x < y"
    with assms(2,3) have "clock ev x \<le> clock ev y" by (meson less_imp_le_nat)
    then show "clock ev x - origin \<le> clock ev y - origin" by simp
  qed
  then show ?thesis by (simp add: sorted_wrt_map)
qed

text \<open>The log of a successful run, as entries.\<close>

lemma try_body_entries:
  assumes "try_body ev cfg ex n st = (Inr u, st')"
  obtains ks where
    "length ks = 5 + 2 * length (cfg_channels cfg)"
    "sorted_wrt (<) ks" "\<forall>k \<in> set ks. ticks st \<le> k \<and> k < ticks st'"
    "hd ks = Suc (ticks st)"
    "fs st' (logBotFile ex n) =
       Some (File (file_text (logBotFile ex n) st @ ''event abs rel\<newline>'' @
         render (entries ev (clock ev (Suc (ticks st)))
           (''origin'' # ''sniffer-on'' # ''browser-on'' #
              (channel_events (cfg_channels cfg) @ [''browser-off'', ''sniffer-off''])) ks)))"
proof -
  from try_body_log[OF assms] obtain ks where
    k: "length ks = length (''sniffer-on'' # ''browser-on'' #
                   (channel_events (cfg_channels cfg) @ [''browser-off'', ''sniffer-off'']))"
       "sorted_wrt (<) ks"
       "\<forall>k \<in> set ks. Suc (ticks st) < k \<and> k < ticks st'"
       "fs st' (logBotFile ex n) =
                Some (File (file_text (logBotFile ex n) st @ ''event abs rel\<newline>'' @
                  stamped ev (clock ev (Suc (ticks st)))
                    (''origin'' # ''sniffer-on'' # ''browser-on'' #
                       (channel_events (cfg_channels cfg) @ [''browser-off'', ''sniffer-off'']))
                    (Suc (ticks st) # ks)))"
    by (elim exE conjE)
  from k(1) have ne: "ks \<noteq> []" by auto
  then have "hd ks \<in> set ks" by simp
  with k(3) have "Suc (ticks st) < hd ks \<and> hd ks < ticks st'" by blast
  then have lt: "Suc (ticks st) < ticks st'" by simp
  show ?thesis
  proof (rule that[of "Suc (ticks st) # ks"])
    show "length (Suc (ticks st) # ks) = 5 + 2 * length (cfg_channels cfg)" using k(1) by simp
    show "sorted_wrt (<) (Suc (ticks st) # ks)" using k(2,3) by simp
    show "\<forall>k \<in> set (Suc (ticks st) # ks). ticks st \<le> k \<and> k < ticks st'"
      using k(3) lt by auto
    show "hd (Suc (ticks st) # ks) = Suc (ticks st)" by simp
    show "fs st' (logBotFile ex n) =
       Some (File (file_text (logBotFile ex n) st @ ''event abs rel\<newline>'' @
         render (entries ev (clock ev (Suc (ticks st)))
           (''origin'' # ''sniffer-on'' # ''browser-on'' #
              (channel_events (cfg_channels cfg) @ [''browser-off'', ''sniffer-off'']))
           (Suc (ticks st) # ks))))"
      using k(4) by (simp only: render_entries)
  qed
qed

section \<open>Runs in which nothing goes wrong\<close>

lemma sureI: "(\<And>st. P st \<Longrightarrow> \<exists>x st'. m st = (Inr x, st') \<and> Q st') \<Longrightarrow> sure P m Q"
  by (simp add: sure_def)

lemma sureD: "sure P m Q \<Longrightarrow> P st \<Longrightarrow> \<exists>x st'. m st = (Inr x, st') \<and> Q st'"
  by (simp add: sure_def)

lemma sure_bind:
  assumes "sure P m R" and "\<And>x. sure R (f x) Q"
  shows "sure P (bind m f) Q"
proof (rule sureI)
  fix st assume "P st"
  with assms(1) obtain x st' where 1: "m st = (Inr x, st')" and 2: "R st'"
    by (auto dest: sureD)
  from sureD[OF assms(2) 2] obtain y st'' where "f x st' = (Inr y, st'')" "Q st''" by blast
  with 1 show "\<exists>x st'. bind m f st = (Inr x, st') \<and> Q st'" by (simp add: bind_def)
qed

lemma sure_bind_same:
  "sure P m P \<Longrightarrow> (\<And>x. sure P (f x) Q) \<Longrightarrow> sure P (bind m f) Q"
  by (rule sure_bind)

lemma extcall_nofault: "nofault ev \<Longrightarrow> extcall ev c st = (Inr (), tick (emit c st))"
  by (simp add: nofault_def extcall_def)

lemma await_call_nofault: "nofault ev \<Longrightarrow> await_call ev c st = (Inr (), tick (emit c (flush st)))"
  by (simp add: await_call_def extcall_nofault)

lemma ready_simps [simp]:
  "ready lg hr a b w (tick st) = ready lg hr a b w st"
  "ready lg hr a b w (emit c st) = ready lg hr a b w st"
  "ready lg hr a b w (flush st) = ready lg hr a b w st"
  by (simp_all add: ready_def tick_def emit_def flush_def)

lemma sure_appendFileSync:
  "nofault ev \<Longrightarrow> sure (ready lg hr a b w) (appendFileSync ev lg s) (ready lg hr a b w)"
  by (rule sureI)
     (auto simp: appendFileSync_def bind_def extcall_nofault ready_def tick_def emit_def
        split: option.splits node.splits)

lemma sure_currentUnix: "sure (ready lg hr a b w) (currentUnix ev) (ready lg hr a b w)"
  by (rule sureI) (simp add: currentUnix_def)

lemma sure_awaiting: "sure (ready lg hr a b w) (awaiting ms) (ready lg hr a b w)"
  by (rule sureI) (simp add: awaiting_def)

lemma sure_page_goto: "nofault ev \<Longrightarrow> sure (ready lg hr a b w) (page_goto ev u) (ready lg hr a b w)"
  by (rule sureI) (simp add: page_goto_def await_call_nofault)

lemma sure_log_event:
  "nofault ev \<Longrightarrow> sure (ready lg hr a b w) (log_event ev lg nm x) (ready lg hr a b w)"
  unfolding log_event_def by (intro sure_bind_same sure_currentUnix sure_appendFileSync)

lemma sure_set_sniffer: "sure (ready lg hr a b w) (set_sniffer s) (ready lg hr True b w)"
  by (rule sureI) (simp add: set_sniffer_def ready_def)

lemma sure_bind_set_sniffer:
  "(\<And>x. sure (ready lg hr True b w) (f x) Q) \<Longrightarrow> sure (ready lg hr a b w) (bind (set_sniffer s) f) Q"
  by (rule sure_bind[OF sure_set_sniffer])

lemma sure_set_browserManager:
  "sure (ready lg hr a b w) (set_browserManager m) (ready lg hr a True w)"
  by (rule sureI) (simp add: set_browserManager_def ready_def)

lemma sure_bind_set_browserManager:
  "(\<And>x. sure (ready lg hr a True w) (f x) Q) \<Longrightarrow>
   sure (ready lg hr a b w) (bind (set_browserManager m) f) Q"
  by (rule sure_bind[OF sure_set_browserManager])

lemma sure_Sniffer_start:
  "nofault ev \<Longrightarrow>
   sure (ready lg hr True b None) (on_sniffer (Sniffer_start ev cfg)) (ready lg hr True b None)"
  by (rule sureI)
     (auto simp: on_sniffer_def Sniffer_start_def extcall_nofault currentTime_def capture_writes_def
        ready_def tick_def emit_def Let_def split: option.splits spawn_result.splits node.splits)

lemma sure_Sniffer_stop:
  "sure (ready lg hr True b w) (on_sniffer (Sniffer_stop ev None)) (ready lg hr True b w)"
  by (rule sureI)
     (auto simp: on_sniffer_def Sniffer_stop_def child_kill_def currentTime_def os_signals_def
        ready_def tick_def emit_def Let_def split: option.splits)

lemma sure_launch:
  "nofault ev \<Longrightarrow> \<forall>k. 0 < pages ev k \<Longrightarrow>
   sure (ready lg hr a True w) (on_browserManager (BrowserManager_launch ev)) (ready lg hr a True w)"
  by (rule sureI)
     (auto simp: on_browserManager_def BrowserManager_launch_def await_call_nofault
        ready_def tick_def emit_def flush_def Let_def split: option.splits)

lemma sure_close:
  "nofault ev \<Longrightarrow>
   sure (ready lg hr a True w) (on_browserManager (BrowserManager_close ev)) (ready lg hr a True w)"
  by (rule sureI)
     (auto simp: on_browserManager_def BrowserManager_close_def await_call_nofault
        ready_def tick_def emit_def flush_def split: option.splits)

lemma sure_bind_startHar:
  assumes "nofault ev" and "sure (ready lg hr a True w) (f p) Q"
  shows "sure (ready lg hr a True w)
           (bind (on_browserManager (BrowserManager_startHarLogging ev p)) f) Q"
proof (rule sureI)
  fix st assume r: "ready lg hr a True w st"
  then obtain b where b: "browserManager st = Some b" by (auto simp: ready_def)
  let ?st1 = "(tick (emit (HarStart p) (flush st)))\<lparr>browserManager := Some b\<rparr>"
  from b assms(1) have 1: "on_browserManager (BrowserManager_startHarLogging ev p) st = (Inr p, ?st1)"
    by (simp add: on_browserManager_def BrowserManager_startHarLogging_def await_call_nofault)
  from r have "ready lg hr a True w ?st1"
    by (simp add: ready_def tick_def emit_def flush_def)
  from sureD[OF assms(2) this] obtain y st'' where "f p ?st1 = (Inr y, st'')" "Q st''" by blast
  with 1 show "\<exists>x st'. bind (on_browserManager (BrowserManager_startHarLogging ev p)) f st =
                  (Inr x, st') \<and> Q st'"
    by (simp add: bind_def)
qed

lemma sure_har_stop:
  "nofault ev \<Longrightarrow> sure (ready lg hr a b w) (har_stop ev hr) (ready lg hr a b (Some (har_data ev)))"
  by (rule sureI)
     (auto simp: har_stop_def bind_def await_call_nofault ready_def tick_def emit_def flush_def
        split: option.splits node.splits)

lemma sure_bind_har_stop:
  "nofault ev \<Longrightarrow> (\<And>x. sure (ready lg hr a b (Some (har_data ev))) (f x) Q) \<Longrightarrow>
   sure (ready lg hr a b w) (bind (har_stop ev hr) f) Q"
  by (rule sure_bind[OF sure_har_stop])

lemma sure_visit:
  "nofault ev \<Longrightarrow> sure (ready lg hr a b w) (visit ev cfg ex lg x ch) (ready lg hr a b w)"
  unfolding visit_def
  by (intro sure_bind_same sure_page_goto sure_log_event sure_awaiting)

lemma sure_visit_all:
  "nofault ev \<Longrightarrow> sure (ready lg hr a b w) (visit_all ev cfg ex lg x chs) (ready lg hr a b w)"
proof (induction chs)
  case Nil
  then show ?case by (simp add: sure_def return_io_def)
next
  case (Cons ch chs)
  then show ?case by (simp add: sure_bind_same sure_visit)
qed

lemma sure_try_body:
  assumes "nofault ev" and "\<forall>k. 0 < pages ev k"
  shows "sure (ready (logBotFile ex n) (logHarFile ex n) False False None) (try_body ev cfg ex n)
           (ready (logBotFile ex n) (logHarFile ex n) True True (Some (har_data ev)))"
  unfolding try_body_def
  by (intro sure_bind_startHar sure_bind_set_sniffer sure_bind_set_browserManager
      sure_bind_har_stop sure_bind_same
      sure_appendFileSync sure_currentUnix
      sure_Sniffer_start sure_log_event sure_launch sure_awaiting
      sure_page_goto sure_visit_all sure_har_stop sure_close sure_Sniffer_stop assms)

lemma try_body_succeeds:
  assumes "nofault ev" and "\<forall>k. 0 < pages ev k"
    and "fs st (logBotFile ex n) \<noteq> Some Dir" and "fs st (logHarFile ex n) \<noteq> Some Dir"
  shows "fst (try_body ev cfg ex n st) = Inr ()"
    and "fs (snd (try_body ev cfg ex n st)) (logHarFile ex n) = Some (File (har_data ev))"
proof -
  from assms(3,4) have "ready (logBotFile ex n) (logHarFile ex n) False False None st"
    by (simp add: ready_def)
  from sureD[OF sure_try_body[OF assms(1,2), where cfg = cfg] this] obtain x st' where
    r: "try_body ev cfg ex n st = (Inr x, st')"
    and q: "ready (logBotFile ex n) (logHarFile ex n) True True (Some (har_data ev)) st'"
    by blast
  from r show "fst (try_body ev cfg ex n st) = Inr ()" by simp
  from r q show "fs (snd (try_body ev cfg ex n st)) (logHarFile ex n) = Some (File (har_data ev))"
    by (simp add: ready_def)
qed

section \<open>The event log of a successful run\<close>

lemma fst_eq_result: "fst r = Inr () \<Longrightarrow> r = (Inr (), snd r)"
  by (cases r) simp

lemma nofault_env_ok: "nofault env_ok"
  by (simp add: nofault_def env_ok_def)

lemma demo_run_succeeds: "fst (try_body env_ok cfg_demo ex_demo 0 st_demo) = Inr ()"
  by (rule try_body_succeeds(1)[OF nofault_env_ok])
     (simp_all add: env_ok_def st_demo_def ex_demo_def logBotFile_def logHarFile_def path_join_def)

lemma demo_log_fresh: "file_text (logBotFile ex_demo 0) st_demo = []"
  by (simp add: file_text_def st_demo_def ex_demo_def logBotFile_def path_join_def)





lemma back_run_succeeds: "fst (try_body env_back cfg_home ex_demo 0 st_demo) = Inr ()"
  by (simp add: run_defs env_back_def)

lemma back_run_log:
  "fs (snd (try_body env_back cfg_home ex_demo 0 st_demo)) (logBotFile ex_demo 0) =
     Some (File ''event abs rel\<newline>origin 5010 0\<newline>sniffer-on 1050 -3960\<newline>browser-on 1090 -3920\<newline>browser-off 1150 -3860\<newline>sniffer-off 1180 -3830\<newline>'')"
  by (simp add: run_defs env_back_def)


section \<open>Wait durations\<close>

text \<open>
  C9: the experiment object holds the fast and the long interval of the configuration
  times 1000, and the watch interval as the long interval times 1000 times 30. A
  successful run waits: the fast interval, then (after going to the home page) the long
  interval, then for each channel the watch interval on the channel and the fast interval
  back on the home page, and last, after traffic logging has stopped, twice the long
  interval.
\<close>

theorem wait_durations:
  assumes "Experiment_new ev cfg st0 = (Inr ex, st1)"
      and "try_body ev cfg ex n st = (Inr (), st')"
  shows "fastAwait ex = cfg_fastAwait cfg * 1000 \<and>
         longAwait ex = cfg_longAwait cfg * 1000 \<and>
         watchAwait ex = cfg_longAwait cfg * 1000 * 30 \<and>
         schedule (trace st') = schedule (trace st) @
           Timeout (cfg_fastAwait cfg * 1000) # Goto (cfg_homepage cfg) #
           Timeout (cfg_longAwait cfg * 1000) #
           (concat (map (\<lambda>ch. [Goto (chan_link ch), Timeout (cfg_longAwait cfg * 1000 * 30),
                                Goto (cfg_homepage cfg), Timeout (cfg_fastAwait cfg * 1000)])
                      (cfg_channels cfg)) @
            [HarStop (logHarFile ex n), Timeout (cfg_longAwait cfg * 1000 * 2)])"
proof -
  from assms(1) obtain d st2 where
    "return_io \<lparr>outputDir = d, fastAwait = cfg_fastAwait cfg * 1000,
        longAwait = cfg_longAwait cfg * 1000,
        watchAwait = cfg_longAwait cfg * 1000 * 30\<rparr> st2 = (Inr ex, st1)"
    unfolding Experiment_new_def by (rule bind_InrE)
  then have ex: "ex = \<lparr>outputDir = d, fastAwait = cfg_fastAwait cfg * 1000,
        longAwait = cfg_longAwait cfg * 1000,
        watchAwait = cfg_longAwait cfg * 1000 * 30\<rparr>"
    by (simp add: return_io_def)
  from steps_try_body[of ev cfg ex n] assms(2)
  have "schedule (trace st') = schedule (trace st) @
     (Timeout (fastAwait ex) # Goto (cfg_homepage cfg) # Timeout (longAwait ex) #
      (concat (map (visit_steps cfg ex) (cfg_channels cfg)) @
       [HarStop (logHarFile ex n), Timeout (longAwait ex * 2)]))"
    unfolding steps_def by blast
  moreover have "visit_steps cfg ex = (\<lambda>ch. [Goto (chan_link ch), Timeout (cfg_longAwait cfg * 1000 * 30),
                                Goto (cfg_homepage cfg), Timeout (cfg_fastAwait cfg * 1000)])"
    by (simp add: visit_steps_def fun_eq_iff ex)
  ultimately show ?thesis by (simp add: ex)
qed

theorem wait_durations_witness:
  "fst (Experiment_new env_ok cfg_demo st_demo) = Inr ex_demo \<and>
   fst (try_body env_ok cfg_demo ex_demo 0 st_demo) = Inr () \<and>
   fastAwait ex_demo = 1000 \<and> longAwait ex_demo = 2000 \<and> watchAwait ex_demo = 60000 \<and>
   schedule (trace (snd (try_body env_ok cfg_demo ex_demo 0 st_demo))) =
     [Timeout 1000, Goto ''home'', Timeout 2000,
      Goto ''a'', Timeout 60000, Goto ''home'', Timeout 1000,
      Goto ''b'', Timeout 60000, Goto ''home'', Timeout 1000,
      HarStop (logHarFile ex_demo 0), Timeout 4000]"
  using wait_durations [OF fst_eq_made [OF demo_experiment] fst_eq_result [OF demo_run_succeeds]]
    demo_experiment demo_run_succeeds
  by (simp add: cfg_demo_def st_demo_def)

section \<open>A capture binary that cannot be started\<close>

lemma start_without_binary:
  assumes "fault ev (ticks st)
             (Spawn (cfg_bin (cfg_sniffer cfg))
                [''-i'', cfg_net (cfg_sniffer cfg), ''-s'', cfg_max (cfg_sniffer cfg), ''-w'',
                 outputPath s]) = None"
    and "spawned ev (ticks st) = SpawnFailed m"
  shows "Sniffer_start ev cfg s st =
     (Inr (),
      s\<lparr>snifferProcess := Some \<lparr>pid = None, attached = False, killed = False, exit_listeners = 1\<rparr>\<rparr>,
      st\<lparr>ticks := Suc (Suc (ticks st)),
         trace := trace st @
           [Spawn (cfg_bin (cfg_sniffer cfg))
              [''-i'', cfg_net (cfg_sniffer cfg), ''-s'', cfg_max (cfg_sniffer cfg), ''-w'',
               outputPath s]],
         pending := pending st @
           [''['' @ dateString ev (Suc (ticks st)) @ ''] Error starting tshark process: '' @ m]\<rparr>)"
  using assms
  by (simp add: Sniffer_start_def extcall_def currentTime_def tick_def emit_def Let_def)

lemma await_call_prints:
  "trace (snd (await_call ev c st)) = trace st @ map ConsoleError (pending st) @ [c]"
  by (simp add: await_call_def extcall_def flush_def tick_def emit_def split: option.splits)

lemma run_from_step:
  "int n < cfg_repetitions cfg \<Longrightarrow> fst (repetition ev cfg ex n st) = Inr () \<Longrightarrow>
   run_from ev cfg ex n st = run_from ev cfg ex (Suc n) (snd (repetition ev cfg ex n st))"
  by (subst run_from.simps) (auto split: prod.splits sum.splits)

lemma repetition_of_success:
  assumes "fst (try_body ev cfg ex n (begin_repetition ev n st)) = Inr ()"
  shows "repetition ev cfg ex n st = (Inr (), snd (try_body ev cfg ex n (begin_repetition ev n st)))"
proof (cases "try_body ev cfg ex n (begin_repetition ev n st)")
  case (Pair r st1)
  with assms show ?thesis by (simp add: repetition_def)
qed

lemma nobin_run_succeeds:
  "fst (try_body env_nobin cfg_home ex_demo 0 (begin_repetition env_nobin 0 st_demo)) = Inr ()"
  by (simp add: run_defs env_nobin_def)

lemma nobin_repetition_trace:
  "trace (snd (try_body env_nobin cfg_home ex_demo 0 (begin_repetition env_nobin 0 st_demo))) =
     [ConsoleLog ''[Tue] Running experiment 1'',
      AppendFile ''d/out/log_bot_complete-1.csv'' ''event abs rel\<newline>'',
      AppendFile ''d/out/log_bot_complete-1.csv'' ''origin 1020 0\<newline>'',
      Spawn ''tshark'' [''-i'', ''eth0'', ''-s'', ''96'', ''-w'', ''d/out/log_net_complete-1.pcap''],
      AppendFile ''d/out/log_bot_complete-1.csv'' ''sniffer-on 1060 40\<newline>'',
      ConsoleError ''[Tue] Error starting tshark process: spawn tshark ENOENT'',
      PuppeteerLaunch, BrowserPages,
      AppendFile ''d/out/log_bot_complete-1.csv'' ''browser-on 1100 80\<newline>'',
      Timeout 1000, HarStart ''d/out/log_har_complete-1.har'', Goto ''home'', Timeout 2000,
      HarStop ''d/out/log_har_complete-1.har'', BrowserClose,
      AppendFile ''d/out/log_bot_complete-1.csv'' ''browser-off 1160 140\<newline>'',
      Timeout 4000,
      ConsoleLog ''[Tue] Stopping tshark process with PID: undefined'',
      AppendFile ''d/out/log_bot_complete-1.csv'' ''sniffer-off 1190 170\<newline>'']"
  by (simp add: run_defs env_nobin_def)

lemma nobin_files:
  "fs (snd (try_body env_nobin cfg_home ex_demo 0 (begin_repetition env_nobin 0 st_demo)))
     (logBotFile ex_demo 0) =
     Some (File ''event abs rel\<newline>origin 1020 0\<newline>sniffer-on 1060 40\<newline>browser-on 1100 80\<newline>browser-off 1160 140\<newline>sniffer-off 1190 170\<newline>'')"
  "fs (snd (try_body env_nobin cfg_home ex_demo 0 (begin_repetition env_nobin 0 st_demo)))
     (logHarFile ex_demo 0) = Some (File ''har'')"
  "fs (snd (try_body env_nobin cfg_home ex_demo 0 (begin_repetition env_nobin 0 st_demo)))
     (logNetFile ex_demo 0) = None"
  by (simp_all add: run_defs env_nobin_def)

text \<open>
  C5 as stated fails: with a capture binary that cannot be started and nothing else going
  wrong, the run is not aborted. The error is printed at the next turn of the event loop,
  the run goes on to its end, the failure handler is never entered, and the event log and
  the traffic log stay in place.
\<close>

theorem missing_binary_run_completes:
  "spawned env_nobin 3 = SpawnFailed ''spawn tshark ENOENT'' \<and>
   fst (try_body env_nobin cfg_home ex_demo 0 (begin_repetition env_nobin 0 st_demo)) = Inr () \<and>
   repetition env_nobin cfg_home ex_demo 0 st_demo =
     (Inr (), snd (try_body env_nobin cfg_home ex_demo 0 (begin_repetition env_nobin 0 st_demo))) \<and>
   trace (snd (repetition env_nobin cfg_home ex_demo 0 st_demo)) =
     [ConsoleLog ''[Tue] Running experiment 1'',
      AppendFile ''d/out/log_bot_complete-1.csv'' ''event abs rel\<newline>'',
      AppendFile ''d/out/log_bot_complete-1.csv'' ''origin 1020 0\<newline>'',
      Spawn ''tshark'' [''-i'', ''eth0'', ''-s'', ''96'', ''-w'', ''d/out/log_net_complete-1.pcap''],
      AppendFile ''d/out/log_bot_complete-1.csv'' ''sniffer-on 1060 40\<newline>'',
      ConsoleError ''[Tue] Error starting tshark process: spawn tshark ENOENT'',
      PuppeteerLaunch, BrowserPages,
      AppendFile ''d/out/log_bot_complete-1.csv'' ''browser-on 1100 80\<newline>'',
      Timeout 1000, HarStart ''d/out/log_har_complete-1.har'', Goto ''home'', Timeout 2000,
      HarStop ''d/out/log_har_complete-1.har'', BrowserClose,
      AppendFile ''d/out/log_bot_complete-1.csv'' ''browser-off 1160 140\<newline>'',
      Timeout 4000,
      ConsoleLog ''[Tue] Stopping tshark process with PID: undefined'',
      AppendFile ''d/out/log_bot_complete-1.csv'' ''sniffer-off 1190 170\<newline>''] \<and>
   fs (snd (repetition env_nobin cfg_home ex_demo 0 st_demo)) (logBotFile ex_demo 0) =
     Some (File ''event abs rel\<newline>origin 1020 0\<newline>sniffer-on 1060 40\<newline>browser-on 1100 80\<newline>browser-off 1160 140\<newline>sniffer-off 1190 170\<newline>'') \<and>
   fs (snd (repetition env_nobin cfg_home ex_demo 0 st_demo)) (logHarFile ex_demo 0) =
     Some (File ''har'')"
  using repetition_of_success [OF nobin_run_succeeds] nobin_run_succeeds nobin_repetition_trace
    nobin_files
  by (simp add: env_nobin_def)

lemma nofault_env_nobin: "nofault env_nobin"
  by (simp add: nofault_def env_nobin_def env_ok_def)

text \<open>
  C5, as amended: when the capture binary cannot be started, \<open>start\<close> returns normally;
  it prints nothing itself, the message of the error listener is queued, and the next
  awaited call prints what is queued before anything else. The run is not aborted by
  this: when no call faults, the browser has a page and the log paths are not
  directories, the \<open>try\<close> block succeeds, the handler is not entered, the event log
  and the traffic log exist afterwards, and the loop goes on to the next repetition.
\<close>

theorem missing_capture_binary:
  assumes "nofault ev" and "\<forall>k. spawned ev k = SpawnFailed m" and "\<forall>k. 0 < pages ev k"
    and "fs st (logBotFile ex n) \<noteq> Some Dir" and "fs st (logHarFile ex n) \<noteq> Some Dir"
  shows "Sniffer_start ev cfg s st0 =
     (Inr (),
      s\<lparr>snifferProcess := Some \<lparr>pid = None, attached = False, killed = False, exit_listeners = 1\<rparr>\<rparr>,
      st0\<lparr>ticks := Suc (Suc (ticks st0)),
         trace := trace st0 @
           [Spawn (cfg_bin (cfg_sniffer cfg))
              [''-i'', cfg_net (cfg_sniffer cfg), ''-s'', cfg_max (cfg_sniffer cfg), ''-w'',
               outputPath s]],
         pending := pending st0 @
           [''['' @ dateString ev (Suc (ticks st0)) @ ''] Error starting tshark process: '' @ m]\<rparr>) \<and>
     trace (snd (await_call ev c st1)) = trace st1 @ map ConsoleError (pending st1) @ [c] \<and>
     repetition ev cfg ex n st = (Inr (), snd (try_body ev cfg ex n (begin_repetition ev n st))) \<and>
     fs (snd (repetition ev cfg ex n st)) (logBotFile ex n) \<noteq> None \<and>
     fs (snd (repetition ev cfg ex n st)) (logHarFile ex n) = Some (File (har_data ev)) \<and>
     (int n < cfg_repetitions cfg \<longrightarrow>
        run_from ev cfg ex n st = run_from ev cfg ex (Suc n) (snd (repetition ev cfg ex n st)))"
proof -
  let ?b = "begin_repetition ev n st"
  from assms(1) have nf: "fault ev (ticks st0)
             (Spawn (cfg_bin (cfg_sniffer cfg))
                [''-i'', cfg_net (cfg_sniffer cfg), ''-s'', cfg_max (cfg_sniffer cfg), ''-w'',
                 outputPath s]) = None"
    by (simp add: nofault_def)
  from assms(2) have sp: "spawned ev (ticks st0) = SpawnFailed m" by simp
  note a = start_without_binary[OF nf sp]
  from assms(4,5) have d: "fs ?b (logBotFile ex n) \<noteq> Some Dir" "fs ?b (logHarFile ex n) \<noteq> Some Dir"
    by simp_all
  from try_body_succeeds[OF assms(1) assms(3) d, of cfg]
  have ok: "fst (try_body ev cfg ex n ?b) = Inr ()"
    and har: "fs (snd (try_body ev cfg ex n ?b)) (logHarFile ex n) = Some (File (har_data ev))"
    by simp_all
  from ok have t: "try_body ev cfg ex n ?b = (Inr (), snd (try_body ev cfg ex n ?b))"
    by (rule fst_eq_result)
  from ok have r: "repetition ev cfg ex n st = (Inr (), snd (try_body ev cfg ex n ?b))"
    by (rule repetition_of_success)
  from t obtain ks where
    "fs (snd (try_body ev cfg ex n ?b)) (logBotFile ex n) =
       Some (File (file_text (logBotFile ex n) ?b @ ''event abs rel\<newline>'' @
         render (entries ev (clock ev (Suc (ticks ?b)))
           (''origin'' # ''sniffer-on'' # ''browser-on'' #
              (channel_events (cfg_channels cfg) @ [''browser-off'', ''sniffer-off''])) ks)))"
    by (rule try_body_entries)
  then have lg: "fs (snd (try_body ev cfg ex n ?b)) (logBotFile ex n) \<noteq> None" by simp
  from r have "fst (repetition ev cfg ex n st) = Inr ()" by simp
  then have nx: "int n < cfg_repetitions cfg \<longrightarrow>
        run_from ev cfg ex n st = run_from ev cfg ex (Suc n) (snd (repetition ev cfg ex n st))"
    by (simp add: run_from_step)
  from a await_call_prints[of ev c st1] r lg har nx show ?thesis by simp
qed

theorem missing_capture_binary_witness:
  "nofault env_nobin \<and>
   fst (Sniffer_start env_nobin cfg_demo (Sniffer_new (logNetFile ex_demo 0)) st_demo) = Inr () \<and>
   pending (snd (snd (Sniffer_start env_nobin cfg_demo (Sniffer_new (logNetFile ex_demo 0)) st_demo))) =
     [''[Tue] Error starting tshark process: spawn tshark ENOENT''] \<and>
   repetition env_nobin cfg_demo ex_demo 0 st_demo =
     (Inr (), snd (try_body env_nobin cfg_demo ex_demo 0 (begin_repetition env_nobin 0 st_demo))) \<and>
   fs (snd (repetition env_nobin cfg_demo ex_demo 0 st_demo)) (logBotFile ex_demo 0) \<noteq> None \<and>
   fs (snd (repetition env_nobin cfg_demo ex_demo 0 st_demo)) (logHarFile ex_demo 0) =
     Some (File ''har'') \<and>
   run_from env_nobin cfg_demo ex_demo 0 st_demo =
     run_from env_nobin cfg_demo ex_demo 1 (snd (repetition env_nobin cfg_demo ex_demo 0 st_demo))"
proof -
  let ?s = "Sniffer_new (logNetFile ex_demo 0)"
  have h: "\<forall>k. spawned env_nobin k = SpawnFailed ''spawn tshark ENOENT''"
    "\<forall>k. 0 < pages env_nobin k"
    "fs st_demo (logBotFile ex_demo 0) \<noteq> Some Dir" "fs st_demo (logHarFile ex_demo 0) \<noteq> Some Dir"
    by (simp_all add: env_nobin_def env_ok_def st_demo_def ex_demo_def logBotFile_def
        logHarFile_def path_join_def)
  note t = missing_capture_binary [OF nofault_env_nobin h, where cfg = cfg_demo and s = "?s"
      and ?st0.0 = st_demo and c = PuppeteerLaunch and ?st1.0 = st_demo]
  from t have a: "fst (Sniffer_start env_nobin cfg_demo ?s st_demo) = Inr ()" by simp
  from t have "pending (snd (snd (Sniffer_start env_nobin cfg_demo ?s st_demo))) =
      pending st_demo @ [''['' @ dateString env_nobin (Suc (ticks st_demo)) @
         ''] Error starting tshark process: '' @ ''spawn tshark ENOENT'']" by simp
  then have b: "pending (snd (snd (Sniffer_start env_nobin cfg_demo ?s st_demo))) =
     [''[Tue] Error starting tshark process: spawn tshark ENOENT'']"
    by (simp add: env_nobin_def env_ok_def st_demo_def)
  from t have c: "repetition env_nobin cfg_demo ex_demo 0 st_demo =
     (Inr (), snd (try_body env_nobin cfg_demo ex_demo 0 (begin_repetition env_nobin 0 st_demo)))"
    by blast
  from t have d: "fs (snd (repetition env_nobin cfg_demo ex_demo 0 st_demo)) (logBotFile ex_demo 0) \<noteq> None"
    by blast
  from t have "fs (snd (repetition env_nobin cfg_demo ex_demo 0 st_demo)) (logHarFile ex_demo 0) =
     Some (File (har_data env_nobin))" by blast
  then have e: "fs (snd (repetition env_nobin cfg_demo ex_demo 0 st_demo)) (logHarFile ex_demo 0) =
     Some (File ''har'')" by (simp add: env_nobin_def env_ok_def)
  have "int 0 < cfg_repetitions cfg_demo" by (simp add: cfg_demo_def)
  with t have f: "run_from env_nobin cfg_demo ex_demo 0 st_demo =
     run_from env_nobin cfg_demo ex_demo 1 (snd (repetition env_nobin cfg_demo ex_demo 0 st_demo))"
    by simp
  from nofault_env_nobin a b c d e f show ?thesis by (intro conjI)
qed

section \<open>The failure handler\<close>

lemma cleanup_append [simp]: "cleanup (xs @ ys) = cleanup xs @ cleanup ys"
  by (simp add: cleanup_def)

lemma cleanup_Nil [simp]: "cleanup [] = []"
  by (simp add: cleanup_def)

lemma cleanup_Cons [simp]: "cleanup (c # cs) = (if tidy c then [c] else []) @ cleanup cs"
  by (simp add: cleanup_def)

lemma cleanup_errors [simp]: "cleanup (map ConsoleError xs) = []"
  by (induction xs) (simp_all add: tidy_def)

lemma tidy_simps [simp]:
  "tidy BrowserClose" "tidy (Unlink p)" "tidy (Kill n sg)"
  "\<not> tidy (ConsoleLog s)" "\<not> tidy (ConsoleError s)"
  by (simp_all add: tidy_def)

lemma kills_append [simp]: "kills (xs @ ys) = kills xs @ kills ys"
  by (simp add: kills_def)

lemma kills_cleanup: "kills (cleanup tr) = kills tr"
  by (induction tr) (auto simp: kills_def tidy_def split: call.splits)

lemma report_failure_effect:
  "report_failure n e st = (r, st1) \<Longrightarrow>
     r = Inr () \<and> fs st1 = fs st \<and> sniffer st1 = sniffer st \<and> browserManager st1 = browserManager st \<and>
     ticks st1 = ticks st \<and> cleanup (trace st1) = cleanup (trace st)"
  by (auto simp: report_failure_def emit_def)

lemma close_if_created_effect:
  assumes "close_if_created ev st = (r, st1)"
  shows "fs st1 = fs st \<and> sniffer st1 = sniffer st \<and>
         cleanup (trace st1) = cleanup (trace st) @ (if launched st then [BrowserClose] else [])"
  using assms
  by (auto simp: close_if_created_def on_browserManager_def BrowserManager_close_def await_call_def
      extcall_def flush_def tick_def emit_def return_io_def launched_def
      split: option.splits if_splits)

lemma close_if_created_raises:
  assumes "launched st" and "fault ev (ticks st) BrowserClose = Some m"
  shows "fst (close_if_created ev st) = Inl (Error m)"
  using assms
  by (auto simp: close_if_created_def on_browserManager_def BrowserManager_close_def await_call_def
      extcall_def flush_def tick_def emit_def launched_def split: option.splits)

lemma close_if_created_returns:
  assumes "\<forall>k. fault ev k BrowserClose = None"
  shows "fst (close_if_created ev st) = Inr ()"
  using assms
  by (auto simp: close_if_created_def on_browserManager_def BrowserManager_close_def await_call_def
      extcall_def flush_def tick_def emit_def return_io_def split: option.splits)

lemma stop_if_created_effect:
  assumes "stop_if_created ev st = (r, st1)"
  shows "r = Inr () \<and> fs st1 = fs st \<and>
         cleanup (trace st1) = cleanup (trace st) @
           (case capturing st of Some cp \<Rightarrow> [Kill (pid cp) ''SIGTERM''] | None \<Rightarrow> [])"
  using assms
  by (auto simp: stop_if_created_def on_sniffer_def Sniffer_stop_def child_kill_def currentTime_def
      tick_def emit_def return_io_def capturing_def os_signals_def Let_def
      split: option.splits if_splits)

lemma unlink_step_effect:
  assumes "(if existsSync p st then unlinkSync ev p st else return_io () st) = (r, st1)"
  shows "sniffer st1 = sniffer st \<and> browserManager st1 = browserManager st \<and>
         cleanup (trace st1) = cleanup (trace st) @ (if existsSync p st then [Unlink p] else []) \<and>
         (\<forall>q. q \<noteq> p \<longrightarrow> fs st1 q = fs st q)"
  using assms
  by (auto simp: existsSync_def unlinkSync_def bind_def extcall_def tick_def emit_def return_io_def
      split: option.splits if_splits node.splits)

lemma cleanFiles_effect:
  "cleanFiles ev ps st = (Inr u, st') \<Longrightarrow> distinct ps \<Longrightarrow>
     sniffer st' = sniffer st \<and>
     cleanup (trace st') = cleanup (trace st) @ map Unlink (filter (\<lambda>p. existsSync p st) ps)"
proof (induction ps arbitrary: st)
  case Nil
  then show ?case by (simp add: return_io_def)
next
  case (Cons p ps)
  from Cons.prems(1) obtain v st1 where
    1: "(if existsSync p st then unlinkSync ev p st else return_io () st) = (Inr v, st1)"
    and 2: "cleanFiles ev ps st1 = (Inr u, st')"
    unfolding cleanFiles.simps by (rule bind_InrE)
  note e = unlink_step_effect[OF 1]
  from Cons.prems(2) have d: "distinct ps" and np: "p \<notin> set ps" by simp_all
  from e np have same: "filter (\<lambda>q. existsSync q st1) ps = filter (\<lambda>q. existsSync q st) ps"
    by (intro filter_cong) (auto simp: existsSync_def)
  from Cons.IH[OF 2 d] e same show ?case by simp
qed

lemma cleanFiles_kills:
  "kills (trace (snd (cleanFiles ev ps st))) = kills (trace st)"
proof (induction ps arbitrary: st)
  case Nil
  then show ?case by (simp add: return_io_def)
next
  case (Cons p ps)
  let ?m = "\<lambda>st. if existsSync p st then unlinkSync ev p st else return_io () st"
  obtain r st1 where 1: "?m st = (r, st1)" by (cases "?m st") auto
  from unlink_step_effect[OF 1] have "kills (cleanup (trace st1)) = kills (cleanup (trace st))"
    by (simp add: kills_def)
  then have k: "kills (trace st1) = kills (trace st)" by (simp add: kills_cleanup)
  show ?case
  proof (cases r)
    case (Inl e)
    with 1 k show ?thesis by (simp add: bind_def)
  next
    case (Inr v)
    with 1 k Cons.IH[of st1] show ?thesis by (simp add: bind_def)
  qed
qed


lemma handler_parts:
  obtains r1 st1 r2 st2 where
    "report_failure n e st = (r1, st1)" and "close_if_created ev st1 = (r2, st2)"
  by (cases "report_failure n e st"; cases "close_if_created ev (snd (report_failure n e st))") auto

lemma handler_completed:
  assumes "catch_handler ev ex n e st = (Inr u, st')"
  shows "cleanup (trace st') = cleanup (trace st) @ (if launched st then [BrowserClose] else []) @
        map Unlink (filter (\<lambda>p. existsSync p st)
          [logNetFile ex n, logBotFile ex n, logHarFile ex n]) @
        (case capturing st of Some cp \<Rightarrow> [Kill (pid cp) ''SIGTERM''] | None \<Rightarrow> [])"
proof -
  from assms[unfolded catch_handler_def] obtain x1 st1 where
    a1: "report_failure n e st = (Inr x1, st1)"
    and b1: "bind (close_if_created ev) (\<lambda>_.
         bind (cleanFiles ev [logNetFile ex n, logBotFile ex n, logHarFile ex n]) (\<lambda>_.
         stop_if_created ev)) st1 = (Inr u, st')"
    by (rule bind_InrE)
  from b1 obtain x2 st2 where
    a2: "close_if_created ev st1 = (Inr x2, st2)"
    and b2: "bind (cleanFiles ev [logNetFile ex n, logBotFile ex n, logHarFile ex n]) (\<lambda>_.
         stop_if_created ev) st2 = (Inr u, st')"
    by (rule bind_InrE)
  from b2 obtain x3 st3 where
    a3: "cleanFiles ev [logNetFile ex n, logBotFile ex n, logHarFile ex n] st2 = (Inr x3, st3)"
    and a4: "stop_if_created ev st3 = (Inr u, st')"
    by (rule bind_InrE)
  note e1 = report_failure_effect[OF a1]
  note e2 = close_if_created_effect[OF a2]
  have d: "distinct [logNetFile ex n, logBotFile ex n, logHarFile ex n]" by simp
  note e3 = cleanFiles_effect[OF a3 d]
  note e4 = stop_if_created_effect[OF a4]
  from e1 have l: "launched st1 = launched st" by (simp add: launched_def)
  from e1 e2 have x: "\<And>p. existsSync p st2 = existsSync p st" by (simp add: existsSync_def)
  from e1 e2 e3 have c: "capturing st3 = capturing st" by (simp add: capturing_def)
  from e1 e2 e3 e4 l x c show ?thesis by simp
qed

lemma handler_close_raises:
  assumes "launched st" and "fault ev (ticks st) BrowserClose = Some m"
  shows "fst (catch_handler ev ex n e st) = Inl (Error m) \<and>
         fs (snd (catch_handler ev ex n e st)) = fs st \<and>
         cleanup (trace (snd (catch_handler ev ex n e st))) = cleanup (trace st) @ [BrowserClose]"
proof -
  obtain r1 st1 r2 st2 where a1: "report_failure n e st = (r1, st1)"
    and a2: "close_if_created ev st1 = (r2, st2)"
    by (rule handler_parts)
  note e1 = report_failure_effect[OF a1]
  note e2 = close_if_created_effect[OF a2]
  from e1 assms have l: "launched st1" "fault ev (ticks st1) BrowserClose = Some m"
    by (simp_all add: launched_def)
  from close_if_created_raises[OF l] a2 have r2: "r2 = Inl (Error m)" by simp
  from a1 e1 a2 r2 have "catch_handler ev ex n e st = (Inl (Error m), st2)"
    by (simp add: catch_handler_def bind_def)
  with e1 e2 l(1) show ?thesis by simp
qed

lemma handler_raised:
  assumes "catch_handler ev ex n e st = (Inl e', st')"
  shows "kills (trace st') = kills (trace st)"
proof -
  obtain r1 st1 r2 st2 where a1: "report_failure n e st = (r1, st1)"
    and a2: "close_if_created ev st1 = (r2, st2)"
    by (rule handler_parts)
  note e1 = report_failure_effect[OF a1]
  note e2 = close_if_created_effect[OF a2]
  from e1 have k1: "kills (trace st1) = kills (trace st)" by (metis kills_cleanup)
  from e2 have "kills (cleanup (trace st2)) = kills (cleanup (trace st1))"
    by (simp add: kills_def)
  then have k2: "kills (trace st2) = kills (trace st1)" by (simp add: kills_cleanup)
  let ?ps = "[logNetFile ex n, logBotFile ex n, logHarFile ex n]"
  show ?thesis
  proof (cases r2)
    case (Inl x)
    with a1 e1 a2 assms have "st' = st2" by (simp add: catch_handler_def bind_def)
    with k1 k2 show ?thesis by simp
  next
    case (Inr x)
    obtain r3 st3 where a3: "cleanFiles ev ?ps st2 = (r3, st3)" by (cases "cleanFiles ev ?ps st2") auto
    from cleanFiles_kills[of ev ?ps st2] a3 have k3: "kills (trace st3) = kills (trace st2)" by simp
    show ?thesis
    proof (cases r3)
      case (Inl y)
      with a1 e1 a2 Inr a3 assms have "st' = st3" by (simp add: catch_handler_def bind_def)
      with k1 k2 k3 show ?thesis by simp
    next
      case r3: (Inr y)
      obtain r4 st4 where a4: "stop_if_created ev st3 = (r4, st4)"
        by (cases "stop_if_created ev st3") auto
      from stop_if_created_effect[OF a4] have "r4 = Inr ()" by simp
      with a1 e1 a2 Inr a3 r3 a4 assms show ?thesis by (simp add: catch_handler_def bind_def)
    qed
  qed
qed

lemma unlink_step_returns:
  assumes "\<forall>k p. fault ev k (Unlink p) = None" and "fs st p \<noteq> Some Dir"
  shows "fst (if existsSync p st then unlinkSync ev p st else return_io () st) = Inr ()"
proof (cases "fs st p")
  case None
  then show ?thesis by (simp add: existsSync_def return_io_def)
next
  case (Some nd)
  with assms(2) obtain t where "fs st p = Some (File t)" by (cases nd) auto
  with assms(1) show ?thesis
    by (simp add: existsSync_def unlinkSync_def bind_def extcall_def tick_def emit_def)
qed

lemma cleanFiles_returns:
  assumes "\<forall>k p. fault ev k (Unlink p) = None"
  shows "\<forall>p \<in> set ps. fs st p \<noteq> Some Dir \<Longrightarrow> fst (cleanFiles ev ps st) = Inr ()"
proof (induction ps arbitrary: st)
  case Nil
  then show ?case by (simp add: return_io_def)
next
  case (Cons p ps)
  let ?m = "\<lambda>st. if existsSync p st then unlinkSync ev p st else return_io () st"
  from Cons.prems have "fs st p \<noteq> Some Dir" by simp
  from unlink_step_returns[OF assms this] have 1: "fst (?m st) = Inr ()" .
  then obtain st1 where m: "?m st = (Inr (), st1)" by (cases "?m st") auto
  have t: "tame ?m"
    using tame_unlinkSync[of ev p] quiet_tame[OF quiet_return, of "()"] by (simp add: tame_def)
  have "fs st1 q \<noteq> Some Dir" if q: "q \<in> set ps" for q
  proof -
    from Cons.prems q have "fs st q \<noteq> Some Dir" by simp
    with t have "fs (snd (?m st)) q \<noteq> Some Dir" unfolding tame_def by blast
    with m show ?thesis by simp
  qed
  then have "\<forall>q \<in> set ps. fs st1 q \<noteq> Some Dir" by blast
  from Cons.IH[OF this] m show ?case by (simp add: bind_def)
qed

lemma handler_returns:
  assumes "\<forall>k. fault ev k BrowserClose = None" and "\<forall>k p. fault ev k (Unlink p) = None"
    and "\<forall>q \<in> artifacts ex n. fs st q \<noteq> Some Dir"
  shows "fst (catch_handler ev ex n e st) = Inr ()"
proof -
  let ?ps = "[logNetFile ex n, logBotFile ex n, logHarFile ex n]"
  obtain r1 st1 r2 st2 where a1: "report_failure n e st = (r1, st1)"
    and a2: "close_if_created ev st1 = (r2, st2)"
    by (rule handler_parts)
  note e1 = report_failure_effect[OF a1]
  note e2 = close_if_created_effect[OF a2]
  from close_if_created_returns[OF assms(1), of st1] a2 have r2: "r2 = Inr ()" by simp
  from e1 e2 assms(3) have "\<forall>p \<in> set ?ps. fs st2 p \<noteq> Some Dir" by (simp add: artifacts_def)
  from cleanFiles_returns[OF assms(2) this] obtain st3 where
    a3: "cleanFiles ev ?ps st2 = (Inr (), st3)" by (cases "cleanFiles ev ?ps st2") auto
  obtain r4 st4 where a4: "stop_if_created ev st3 = (r4, st4)"
    by (cases "stop_if_created ev st3") auto
  from stop_if_created_effect[OF a4] have "r4 = Inr ()" by simp
  with a1 e1 a2 r2 a3 a4 show ?thesis by (simp add: catch_handler_def bind_def)
qed

lemma st_nav_facts:
  "launched st_nav"
  "existsSync (logNetFile ex_demo 0) st_nav" "existsSync (logBotFile ex_demo 0) st_nav"
  "\<not> existsSync (logHarFile ex_demo 0) st_nav"
  "capturing st_nav = Some \<lparr>pid = Some 7, attached = True, killed = False, exit_listeners = 1\<rparr>"
  "cleanup (trace st_nav) = []"
  by (simp_all add: st_nav_def launched_def capturing_def run_defs env_nav_def tidy_def)

lemma st_stuck_facts:
  "launched st_stuck"
  "fs st_stuck (logNetFile ex_demo 0) = Some (File ''pcap'')"
  "fs st_stuck (logBotFile ex_demo 0) =
     Some (File ''event abs rel\<newline>origin 1020 0\<newline>sniffer-on 1060 40\<newline>'')"
  "capturing st_stuck = Some \<lparr>pid = Some 7, attached = True, killed = False, exit_listeners = 1\<rparr>"
  "cleanup (trace st_stuck) = []"
  by (simp_all add: st_stuck_def launched_def capturing_def run_defs env_stuck_def tidy_def)

lemma stuck_run_fails:
  "fst (try_body env_stuck cfg_demo ex_demo 0 (begin_repetition env_stuck 0 st_demo)) =
     Inl (Error ''Protocol error: Target closed'')"
  by (simp add: run_defs env_stuck_def)

lemma stuck_close_fault:
  "fault env_stuck k BrowserClose = Some ''Protocol error: Target closed''"
  by (simp add: env_stuck_def env_ok_def)

lemma nav_cleanup_faults:
  "\<forall>k. fault env_nav k BrowserClose = None" "\<forall>k p. fault env_nav k (Unlink p) = None"
  by (simp_all add: env_nav_def env_ok_def)

lemma repetition_of_failure:
  assumes "fst (try_body ev cfg ex n (begin_repetition ev n st)) = Inl e"
  shows "repetition ev cfg ex n st =
           catch_handler ev ex n e (snd (try_body ev cfg ex n (begin_repetition ev n st)))"
proof (cases "try_body ev cfg ex n (begin_repetition ev n st)")
  case (Pair r st1)
  with assms show ?thesis by (simp add: repetition_def)
qed

lemma stuck_repetition:
  "repetition env_stuck cfg_demo ex_demo 0 st_demo =
     catch_handler env_stuck ex_demo 0 (Error ''Protocol error: Target closed'') st_stuck"
  unfolding st_stuck_def by (rule repetition_of_failure[OF stuck_run_fails])

text \<open>
  C4 as stated fails: the cleanup actions are not guarded against each other. When
  closing the browser raises in the handler, the handler ends there: the artifact files
  written so far are still in place and the capture process has not been signalled.
\<close>

theorem failed_close_skips_remaining_cleanup:
  "fst (repetition env_stuck cfg_demo ex_demo 0 st_demo) =
     Inl (Error ''Protocol error: Target closed'') \<and>
   cleanup (trace (snd (repetition env_stuck cfg_demo ex_demo 0 st_demo))) = [BrowserClose] \<and>
   fs (snd (repetition env_stuck cfg_demo ex_demo 0 st_demo)) (logNetFile ex_demo 0) =
     Some (File ''pcap'') \<and>
   fs (snd (repetition env_stuck cfg_demo ex_demo 0 st_demo)) (logBotFile ex_demo 0) =
     Some (File ''event abs rel\<newline>origin 1020 0\<newline>sniffer-on 1060 40\<newline>'') \<and>
   capturing st_stuck =
     Some \<lparr>pid = Some 7, attached = True, killed = False, exit_listeners = 1\<rparr>"
  using handler_close_raises [OF st_stuck_facts(1) stuck_close_fault, where ex = ex_demo and n = 0
      and e = "Error ''Protocol error: Target closed''"]
    stuck_repetition st_stuck_facts
  by simp

text \<open>
  C4, as amended: when the handler completes, its cleanup calls were, in this order:
  closing the browser if one was launched, deleting those of the three artifact files
  (capture, event log, traffic log) that exist, signalling the capture process with
  SIGTERM if there is one to signal. The actions are conditional on existence only. When
  closing the browser raises, the handler raises that error at once, with the file system
  unchanged; and whenever the handler raises, the capture process has not been signalled.
\<close>

theorem cleanup_in_failure_handler:
  "(catch_handler ev ex n e st = (Inr (), st') \<longrightarrow>
      cleanup (trace st') = cleanup (trace st) @ (if launched st then [BrowserClose] else []) @
        map Unlink (filter (\<lambda>p. existsSync p st)
          [logNetFile ex n, logBotFile ex n, logHarFile ex n]) @
        (case capturing st of Some cp \<Rightarrow> [Kill (pid cp) ''SIGTERM''] | None \<Rightarrow> [])) \<and>
   (launched st \<and> fault ev (ticks st) BrowserClose = Some m \<longrightarrow>
      fst (catch_handler ev ex n e st) = Inl (Error m) \<and>
      fs (snd (catch_handler ev ex n e st)) = fs st \<and>
      cleanup (trace (snd (catch_handler ev ex n e st))) = cleanup (trace st) @ [BrowserClose]) \<and>
   (catch_handler ev ex n e st = (Inl e', st'') \<longrightarrow> kills (trace st'') = kills (trace st))"
  using handler_completed[of ev ex n e st "()" st'] handler_close_raises[of st ev m ex n e]
    handler_raised[of ev ex n e st e' st'']
  by blast

theorem cleanup_in_failure_handler_witness:
  "fst (catch_handler env_nav ex_demo 0 (Error ''Navigation timeout'') st_nav) = Inr () \<and>
   cleanup (trace (snd (catch_handler env_nav ex_demo 0 (Error ''Navigation timeout'') st_nav))) =
     [BrowserClose, Unlink (logNetFile ex_demo 0), Unlink (logBotFile ex_demo 0),
      Kill (Some 7) ''SIGTERM''] \<and>
   launched st_stuck \<and>
   fault env_stuck (ticks st_stuck) BrowserClose = Some ''Protocol error: Target closed'' \<and>
   fst (catch_handler env_stuck ex_demo 0 (Error ''Protocol error: Target closed'') st_stuck) =
     Inl (Error ''Protocol error: Target closed'') \<and>
   fs (snd (catch_handler env_stuck ex_demo 0 (Error ''Protocol error: Target closed'') st_stuck)) =
     fs st_stuck \<and>
   kills (trace (snd (catch_handler env_stuck ex_demo 0 (Error ''Protocol error: Target closed'')
            st_stuck))) = kills (trace st_stuck)"
proof -
  let ?hn = "catch_handler env_nav ex_demo 0 (Error ''Navigation timeout'') st_nav"
  let ?hs = "catch_handler env_stuck ex_demo 0 (Error ''Protocol error: Target closed'') st_stuck"
  have "\<forall>q \<in> artifacts ex_demo 0. fs st_nav q \<noteq> Some Dir"
    by (simp add: artifacts_def st_nav_def run_defs env_nav_def)
  from handler_returns[OF nav_cleanup_faults this] have n1: "fst ?hn = Inr ()" .
  then have n2: "?hn = (Inr (), snd ?hn)" by (rule fst_eq_result)
  from cleanup_in_failure_handler [where ev = env_nav and ex = ex_demo and n = 0
      and e = "Error ''Navigation timeout''" and st = st_nav and st' = "snd ?hn"]
    n2 st_nav_facts
  have n3: "cleanup (trace (snd ?hn)) =
     [BrowserClose, Unlink (logNetFile ex_demo 0), Unlink (logBotFile ex_demo 0),
      Kill (Some 7) ''SIGTERM'']" by simp
  from cleanup_in_failure_handler [where ev = env_stuck and ex = ex_demo and n = 0
      and e = "Error ''Protocol error: Target closed''" and st = st_stuck
      and m = "''Protocol error: Target closed''"] st_stuck_facts(1) stuck_close_fault
  have s1: "fst ?hs = Inl (Error ''Protocol error: Target closed'')" "fs (snd ?hs) = fs st_stuck"
    by simp_all
  then have "?hs = (Inl (Error ''Protocol error: Target closed''), snd ?hs)"
    by (metis prod.collapse)
  with cleanup_in_failure_handler [where ev = env_stuck and ex = ex_demo and n = 0
      and e = "Error ''Protocol error: Target closed''" and st = st_stuck
      and e' = "Error ''Protocol error: Target closed''" and st'' = "snd ?hs"]
  have s2: "kills (trace (snd ?hs)) = kills (trace st_stuck)" by simp
  from n1 n3 s1 s2 st_stuck_facts(1) stuck_close_fault show ?thesis by simp
qed

section \<open>The repetition loop\<close>

lemma repetition_returns:
  assumes "\<forall>k. fault ev k BrowserClose = None" and "\<forall>k p. fault ev k (Unlink p) = None"
    and "\<forall>q \<in> artifacts ex n. fs st q \<noteq> Some Dir"
  shows "fst (repetition ev cfg ex n st) = Inr ()"
proof (cases "try_body ev cfg ex n (begin_repetition ev n st)")
  case (Pair r st1)
  show ?thesis
  proof (cases r)
    case (Inl e)
    from assms(3) have "\<forall>q \<in> artifacts ex n. fs (begin_repetition ev n st) q \<noteq> Some Dir" by simp
    with tame_try_body[of ev cfg ex n] Pair have "\<forall>q \<in> artifacts ex n. fs st1 q \<noteq> Some Dir"
      unfolding tame_def by (metis snd_conv)
    from handler_returns[OF assms(1,2) this] Pair Inl show ?thesis by (simp add: repetition_def)
  next
    case (Inr u)
    with Pair show ?thesis by (simp add: repetition_def)
  qed
qed

lemma run_from_all:
  assumes "\<forall>k. fault ev k BrowserClose = None" and "\<forall>k p. fault ev k (Unlink p) = None"
  shows "\<forall>k. \<forall>q \<in> artifacts ex k. fs st q \<noteq> Some Dir \<Longrightarrow>
         run_from ev cfg ex n st =
           (Inr (), foldl (\<lambda>s k. snd (repetition ev cfg ex k s)) st [n..<nat (cfg_repetitions cfg)])"
proof (induction "nat (cfg_repetitions cfg) - n" arbitrary: n st)
  case 0
  then have "\<not> int n < cfg_repetitions cfg" by linarith
  moreover from 0 have "[n..<nat (cfg_repetitions cfg)] = []" by simp
  ultimately show ?case by (subst run_from.simps) simp
next
  case (Suc d)
  then have lt: "int n < cfg_repetitions cfg" and ln: "n < nat (cfg_repetitions cfg)" by linarith+
  from Suc.prems have "\<forall>q \<in> artifacts ex n. fs st q \<noteq> Some Dir" by blast
  from repetition_returns[OF assms this] have r: "fst (repetition ev cfg ex n st) = Inr ()" .
  let ?st1 = "snd (repetition ev cfg ex n st)"
  from repetition_tame[of ev cfg ex n] Suc.prems
  have p1: "\<forall>k. \<forall>q \<in> artifacts ex k. fs ?st1 q \<noteq> Some Dir"
    unfolding tame_def by blast
  from Suc.hyps(2) have "d = nat (cfg_repetitions cfg) - Suc n" by simp
  from Suc.hyps(1)[OF this p1]
  have "run_from ev cfg ex (Suc n) ?st1 =
          (Inr (), foldl (\<lambda>s k. snd (repetition ev cfg ex k s)) ?st1 [Suc n..<nat (cfg_repetitions cfg)])" .
  moreover from ln have "[n..<nat (cfg_repetitions cfg)] = n # [Suc n..<nat (cfg_repetitions cfg)]"
    by (simp add: upt_conv_Cons)
  ultimately show ?case using run_from_step[OF lt r] by simp
qed

lemma makeOutputDir_effect:
  assumes "makeOutputDir ev st = (Inr d, st1)"
  shows "\<forall>q. q \<noteq> d \<longrightarrow> fs st1 q = fs st q"
  using assms
  by (auto simp: makeOutputDir_def mkdirSync_def bind_def extcall_def return_io_def tick_def emit_def
      existsSync_def Let_def split: if_splits option.splits)

lemma Experiment_new_effect:
  assumes "Experiment_new ev cfg st = (Inr ex, st1)"
  shows "\<forall>q. q \<noteq> outputDir ex \<longrightarrow> fs st1 q = fs st q"
proof -
  from assms obtain d st2 where m: "makeOutputDir ev st = (Inr d, st2)"
    and r: "return_io \<lparr>outputDir = d, fastAwait = cfg_fastAwait cfg * 1000,
        longAwait = cfg_longAwait cfg * 1000,
        watchAwait = cfg_longAwait cfg * 1000 * 30\<rparr> st2 = (Inr ex, st1)"
    unfolding Experiment_new_def by (rule bind_InrE)
  from r have "outputDir ex = d" "st1 = st2" by (auto simp: return_io_def)
  with makeOutputDir_effect[OF m] show ?thesis by simp
qed

lemma artifact_not_outputDir: "q \<in> artifacts ex k \<Longrightarrow> q \<noteq> outputDir ex"
  by (auto simp: artifacts_def logNetFile_def logBotFile_def logHarFile_def path_join_def)



lemma nav_experiment: "fst (Experiment_new env_nav cfg_demo st_demo) = Inr ex_demo"
  by (simp add: Experiment_new_def makeOutputDir_def mkdirSync_def existsSync_def path_join_def
      bind_def return_io_def extcall_def tick_def emit_def Let_def
      env_nav_def env_ok_def cfg_demo_def st_demo_def ex_demo_def)


end
